theory Spec2Isabelle
  imports Complex_Main
begin

section \<open>Random-walk Metropolis-Hastings sampler of the notebook\<close>

text \<open>
  The notebook \<^verbatim>\<open>exercise_random_walk_MCMC\<close> is a script: its cells define the forward
  model \<^verbatim>\<open>increasing_sinus_model\<close>, the likelihood \<^verbatim>\<open>fun_LL\<close> and the Metropolis-Hastings
  loop that fills the array \<^verbatim>\<open>w_n\<close>. The embedding keeps that structure. Arrays are lists,
  numbers are reals; the three places where the double arithmetic of the interpreter is
  visible to the loop (the value returned by \<^verbatim>\<open>np.exp\<close>, the division of two likelihoods
  and the comparisons with its result) are written out. Overflow inside the likelihood
  is the subject of \<open>fun_LL_f64\<close>, which agrees with the exact \<open>fun_LL\<close> where nothing
  overflows. Exceptions of the interpreter are values of type \<open>error\<close>.
\<close>

subsection \<open>Errors and double values\<close>

datatype error = IndexError | ValueError

text \<open>
  The value of a double expression: a finite number, an infinity or a NaN. The sign of
  a zero is not kept: the only zero the loop divides by is the \<open>+0.0\<close> that
  \<^verbatim>\<open>np.exp\<close> returns on underflow.
\<close>

datatype fval = Fin real | PInf | NInf | NaN

text \<open>The comparison \<^verbatim>\<open><\<close> of doubles: false as soon as one side is a NaN.\<close>

fun flt :: "fval \<Rightarrow> fval \<Rightarrow> bool" where
  "flt NaN b = False"
| "flt a NaN = False"
| "flt (Fin a) (Fin b) = (a < b)"
| "flt (Fin a) PInf = True"
| "flt (Fin a) NInf = False"
| "flt PInf b = False"
| "flt NInf NInf = False"
| "flt NInf b = True"

text \<open>The order \<^verbatim>\<open><=\<close> of doubles, used to state bounds.\<close>

fun fle :: "fval \<Rightarrow> fval \<Rightarrow> bool" where
  "fle NaN b = False"
| "fle a NaN = False"
| "fle (Fin a) (Fin b) = (a \<le> b)"
| "fle (Fin a) PInf = True"
| "fle (Fin a) NInf = False"
| "fle PInf PInf = True"
| "fle PInf b = False"
| "fle NInf b = True"

text \<open>
  The division \<^verbatim>\<open>a / b\<close> of two finite doubles held in \<^verbatim>\<open>np.float64\<close> scalars. A zero
  divisor raises nothing (numpy prints a warning): the quotient is a NaN for \<open>0 / 0\<close>
  and an infinity otherwise. Any other quotient is the exact one, rounded by \<open>rd\<close>.
\<close>

definition fdiv :: "(real \<Rightarrow> fval) \<Rightarrow> real \<Rightarrow> real \<Rightarrow> fval" where
  "fdiv rd a b =
     (if b = 0 then (if a = 0 then NaN else if 0 < a then PInf else NInf)
      else rd (a / b))"

text \<open>
  The builtin \<^verbatim>\<open>min(1, r)\<close>: it keeps its first argument unless the second one compares
  less, so a NaN in second place is never returned.
\<close>

definition min_1 :: "fval \<Rightarrow> fval" where
  "min_1 x = (if flt x (Fin 1) then x else Fin 1)"

subsection \<open>What the interpreter and its libraries supply\<close>

text \<open>
  \<open>np_exp\<close> is \<^verbatim>\<open>np.exp\<close> on a finite double (a finite double again, zero on underflow),
  \<open>fp_round\<close> rounds an exact quotient to a double, and \<open>mt_raw\<close> is the sequence of
  numbers that successive calls of \<^verbatim>\<open>random.random()\<close> return from the one generator
  hidden in the module \<^verbatim>\<open>random\<close>.
\<close>

record runtime =
  np_exp :: "real \<Rightarrow> real"
  fp_round :: "real \<Rightarrow> fval"
  mt_raw :: "nat \<Rightarrow> real"

text \<open>
  What the theorems need of the runtime: \<^verbatim>\<open>np.exp\<close> is never negative, rounding is
  monotone and leaves 0 and 1 alone, and \<^verbatim>\<open>random.random()\<close> returns numbers of
  \<open>[0, 1)\<close>.
\<close>

definition runtime_ok :: "runtime \<Rightarrow> bool" where
  "runtime_ok rt \<longleftrightarrow>
     (\<forall>t. 0 \<le> np_exp rt t) \<and>
     fp_round rt 0 = Fin 0 \<and> fp_round rt 1 = Fin 1 \<and>
     (\<forall>a b. a \<le> b \<longrightarrow> fle (fp_round rt a) (fp_round rt b)) \<and>
     (\<forall>i. 0 \<le> mt_raw rt i \<and> mt_raw rt i < 1)"

text \<open>
  The state of the module \<^verbatim>\<open>random\<close>: how many raw numbers were consumed, and the
  second Gaussian of a pair that \<^verbatim>\<open>gauss\<close> keeps for its next call.
\<close>

record rng_state =
  pos :: nat
  gauss_next :: "real option"

definition random_random :: "runtime \<Rightarrow> rng_state \<Rightarrow> real \<times> rng_state" where
  "random_random rt g = (mt_raw rt (pos g), g\<lparr>pos := pos g + 1\<rparr>)"

text \<open>
  \<^verbatim>\<open>random.gauss(mu, sigma)\<close>: a kept value is returned and forgotten; otherwise two raw
  numbers of the same generator make a pair, whose second half is kept. The logarithm
  of the module \<^verbatim>\<open>math\<close> raises on an argument that is not positive.
\<close>

definition random_gauss :: "runtime \<Rightarrow> real \<Rightarrow> real \<Rightarrow> rng_state \<Rightarrow> error + (real \<times> rng_state)" where
  "random_gauss rt mu sigma g =
     (case gauss_next g of
        Some z \<Rightarrow> Inr (mu + z * sigma, g\<lparr>gauss_next := None\<rparr>)
      | None \<Rightarrow>
          (let (u1, g1) = random_random rt g;
               x2pi = u1 * (2 * pi);
               (u2, g2) = random_random rt g1
           in if 1 - u2 \<le> 0 then Inl ValueError
              else (let g2rad = sqrt (- 2 * ln (1 - u2));
                        z = cos x2pi * g2rad
                    in Inr (mu + z * sigma, g2\<lparr>gauss_next := Some (sin x2pi * g2rad)\<rparr>))))"

subsection \<open>Arrays\<close>

text \<open>
  An operation on two one-dimensional arrays works element by element; an array of one
  element is stretched to the length of the other one, and any other pair of different
  lengths raises.
\<close>

definition np_bin :: "(real \<Rightarrow> real \<Rightarrow> real) \<Rightarrow> real list \<Rightarrow> real list \<Rightarrow> error + real list" where
  "np_bin f a b =
     (if length a = length b then Inr (map2 f a b)
      else if length a = 1 then Inr (map (f (a ! 0)) b)
      else if length b = 1 then Inr (map (\<lambda>x. f x (b ! 0)) a)
      else Inl ValueError)"

text \<open>\<^verbatim>\<open>np.transpose\<close> leaves a one-dimensional array as it is.\<close>

definition np_transpose :: "real list \<Rightarrow> real list" where
  "np_transpose v = v"

text \<open>\<^verbatim>\<open>np.matmul\<close> of a matrix (a list of rows) and a one-dimensional array.\<close>

definition np_matmul :: "real list list \<Rightarrow> real list \<Rightarrow> error + real list" where
  "np_matmul A v =
     (if list_all (\<lambda>row. length row = length v) A
      then Inr (map (\<lambda>row. sum_list (map2 (*) row v)) A)
      else Inl ValueError)"

text \<open>Reading the row \<^verbatim>\<open>A[i, :]\<close> and writing \<^verbatim>\<open>A[i, :] = v\<close>.\<close>

definition get_row :: "real list list \<Rightarrow> nat \<Rightarrow> error + real list" where
  "get_row A i = (if i < length A then Inr (A ! i) else Inl IndexError)"

definition set_row :: "real list list \<Rightarrow> nat \<Rightarrow> real list \<Rightarrow> error + real list list" where
  "set_row A i v =
     (if length A \<le> i then Inl IndexError
      else if length v = length (A ! i) then Inr (A[i := v])
      else if length v = 1 then Inr (A[i := replicate (length (A ! i)) (v ! 0)])
      else Inl ValueError)"

subsection \<open>The globals of the notebook\<close>

definition dim :: nat where
  "dim = 2"

definition sigma_y :: real where
  "sigma_y = 3 / 2"

definition proposal_cov :: "real list list" where
  "proposal_cov = [[5 / 100, 0], [0, 1 / 10000]]"

text \<open>
  The globals that the loop reads and never writes: the data, the factor \<open>R\<close> that
  \<^verbatim>\<open>linalg.cholesky(proposal_cov)\<close> returned, the starting point and the number of
  iterations.
\<close>

record env =
  x_data :: "real list"
  y_noisy :: "real list"
  R :: "real list list"
  w_MLE :: "real list"
  n_it :: nat

text \<open>The globals that the loop writes: the array of samples and the generator.\<close>

record state =
  w_n :: "real list list"
  rng :: rng_state

subsection \<open>The model and the likelihood\<close>

text \<open>
  The model at one abscissa, and on an array of abscissas (numpy works by element), in
  exact arithmetic: these are the values of the notebook's functions as long as no
  operation overflows. The range of doubles is added in \<open>fun_LL_f64\<close> below.
\<close>

definition model_at :: "real \<Rightarrow> real list \<Rightarrow> real" where
  "model_at x w = w ! 0 * sin (w ! 1 * x * (pi / 2)) + w ! 1 * x"

definition increasing_sinus_model :: "real list \<Rightarrow> real list \<Rightarrow> error + real list" where
  "increasing_sinus_model x w =
     (if length w < 2 then Inl IndexError else Inr (map (\<lambda>xi. model_at xi w) x))"

definition fun_LL :: "runtime \<Rightarrow> env \<Rightarrow> real list \<Rightarrow> error + real" where
  "fun_LL rt e w =
     (case increasing_sinus_model (x_data e) w of
        Inl err \<Rightarrow> Inl err
      | Inr m \<Rightarrow>
          (case np_bin (-) (y_noisy e) m of
             Inl err \<Rightarrow> Inl err
           | Inr d \<Rightarrow> Inr (np_exp rt ((- 1) / 2 / sigma_y ^ 2 * sum_list (map (\<lambda>t. t ^ 2) d)))))"

subsection \<open>One iteration of the loop\<close>

text \<open>The inner loop that fills \<^verbatim>\<open>mv_norm\<close> with \<open>dim\<close> calls of \<^verbatim>\<open>random.gauss(0, 1)\<close>.\<close>

fun gauss_loop :: "runtime \<Rightarrow> nat list \<Rightarrow> real list \<Rightarrow> rng_state \<Rightarrow> error + (real list \<times> rng_state)" where
  "gauss_loop rt [] mv g = Inr (mv, g)"
| "gauss_loop rt (j # js) mv g =
     (case random_gauss rt 0 1 g of
        Inl err \<Rightarrow> Inl err
      | Inr (z, g') \<Rightarrow> gauss_loop rt js (mv[j := z]) g')"

definition draw_mv_norm :: "runtime \<Rightarrow> rng_state \<Rightarrow> error + (real list \<times> rng_state)" where
  "draw_mv_norm rt g = gauss_loop rt [0..<dim] (replicate dim 0) g"

text \<open>
  Step 1 of the loop body, after the draws: the candidate
  \<^verbatim>\<open>w_n[n, :] + np.transpose(np.matmul(R, np.transpose(mv_norm)))\<close>.
\<close>

definition propose :: "env \<Rightarrow> real list \<Rightarrow> real list \<Rightarrow> error + real list" where
  "propose e wc mv =
     (case np_matmul (R e) (np_transpose mv) of
        Inl err \<Rightarrow> Inl err
      | Inr step \<Rightarrow> np_bin (+) wc (np_transpose step))"

text \<open>
  The values of the loop body's variables when it reaches its \<^verbatim>\<open>if\<close>: the draws, the
  current row, the candidate, the two likelihoods, their ratio \<open>r\<close>, \<open>alpha\<close>, and the
  number \<open>u\<close> that \<^verbatim>\<open>random.random()\<close> returns there.
\<close>

record iteration =
  mv_norm :: "real list"
  w_cur :: "real list"
  w_star :: "real list"
  L_star :: real
  L_cur :: real
  r :: fval
  alpha :: fval
  u :: real
  rng_after :: rng_state

definition mh_iteration :: "runtime \<Rightarrow> env \<Rightarrow> nat \<Rightarrow> state \<Rightarrow> error + iteration" where
  "mh_iteration rt e n s =
     (case draw_mv_norm rt (rng s) of
        Inl err \<Rightarrow> Inl err
      | Inr (mv, g1) \<Rightarrow>
          (case get_row (w_n s) n of
             Inl err \<Rightarrow> Inl err
           | Inr wc \<Rightarrow>
               (case propose e wc mv of
                  Inl err \<Rightarrow> Inl err
                | Inr ws \<Rightarrow>
                    (case fun_LL rt e ws of
                       Inl err \<Rightarrow> Inl err
                     | Inr ls \<Rightarrow>
                         (case fun_LL rt e wc of
                            Inl err \<Rightarrow> Inl err
                          | Inr lc \<Rightarrow>
                              (let ratio = fdiv (fp_round rt) ls lc;
                                   (draw, g2) = random_random rt g1
                               in Inr \<lparr>mv_norm = mv, w_cur = wc, w_star = ws, L_star = ls,
                                       L_cur = lc, r = ratio, alpha = min_1 ratio, u = draw,
                                       rng_after = g2\<rparr>))))))"

text \<open>The loop body: the iteration, then the accept-reject branch that writes row \<open>n + 1\<close>.\<close>

definition mh_step :: "runtime \<Rightarrow> env \<Rightarrow> nat \<Rightarrow> state \<Rightarrow> error + state" where
  "mh_step rt e n s =
     (case mh_iteration rt e n s of
        Inl err \<Rightarrow> Inl err
      | Inr it \<Rightarrow>
          (if flt (Fin (u it)) (alpha it)
           then (case set_row (w_n s) (n + 1) (w_star it) of
                   Inl err \<Rightarrow> Inl err
                 | Inr A \<Rightarrow> Inr \<lparr>w_n = A, rng = rng_after it\<rparr>)
           else (case get_row (w_n s) n of
                   Inl err \<Rightarrow> Inl err
                 | Inr row \<Rightarrow>
                     (case set_row (w_n s) (n + 1) row of
                        Inl err \<Rightarrow> Inl err
                      | Inr A \<Rightarrow> Inr \<lparr>w_n = A, rng = rng_after it\<rparr>))))"

subsection \<open>The run\<close>

text \<open>The loop \<^verbatim>\<open>for n in range(n_it)\<close>, on the list of its indices.\<close>

fun mh_loop :: "runtime \<Rightarrow> env \<Rightarrow> nat list \<Rightarrow> state \<Rightarrow> error + state" where
  "mh_loop rt e [] s = Inr s"
| "mh_loop rt e (n # ns) s =
     (case mh_step rt e n s of
        Inl err \<Rightarrow> Inl err
      | Inr s' \<Rightarrow> mh_loop rt e ns s')"

text \<open>
  The cell as a whole: \<^verbatim>\<open>w_n = np.zeros((n_it+1, dim))\<close>, \<^verbatim>\<open>w_n[0,:] = w_MLE\<close>, then the
  loop. \<open>g0\<close> is the state in which the earlier cells left the generator.
\<close>

definition mh_init :: "env \<Rightarrow> rng_state \<Rightarrow> error + state" where
  "mh_init e g0 =
     (case set_row (replicate (n_it e + 1) (replicate dim 0)) 0 (w_MLE e) of
        Inl err \<Rightarrow> Inl err
      | Inr A \<Rightarrow> Inr \<lparr>w_n = A, rng = g0\<rparr>)"

definition mh_run :: "runtime \<Rightarrow> env \<Rightarrow> rng_state \<Rightarrow> error + state" where
  "mh_run rt e g0 =
     (case mh_init e g0 of
        Inl err \<Rightarrow> Inl err
      | Inr s0 \<Rightarrow> mh_loop rt e [0..<n_it e] s0)"

subsection \<open>Well-formed globals\<close>

text \<open>
  The shapes the cells give the globals: \<open>w_MLE\<close> has \<open>dim\<close> entries, \<open>R\<close> is a
  \<open>dim\<close> by \<open>dim\<close> matrix, the data are paired; and \<open>w_n\<close> has \<open>n_it + 1\<close> rows of
  \<open>dim\<close> entries.
\<close>

definition wf_env :: "env \<Rightarrow> bool" where
  "wf_env e \<longleftrightarrow>
     length (w_MLE e) = dim \<and> length (R e) = dim \<and>
     list_all (\<lambda>row. length row = dim) (R e) \<and>
     length (x_data e) = length (y_noisy e)"

definition wf_state :: "env \<Rightarrow> state \<Rightarrow> bool" where
  "wf_state e s \<longleftrightarrow>
     length (w_n s) = n_it e + 1 \<and> list_all (\<lambda>row. length row = dim) (w_n s)"

subsection \<open>The factor of the proposal covariance\<close>

text \<open>
  What \<^verbatim>\<open>linalg.cholesky(a)\<close> returns with its default \<^verbatim>\<open>lower=False\<close>: the upper
  triangular matrix \<open>U\<close> with a positive diagonal and \<open>a = U\<^sup>T U\<close>.
\<close>

definition cholesky_upper :: "real list list \<Rightarrow> real list list \<Rightarrow> bool" where
  "cholesky_upper A U \<longleftrightarrow>
     length U = length A \<and> list_all (\<lambda>row. length row = length A) U \<and>
     list_all (\<lambda>i. list_all (\<lambda>j. U ! i ! j = 0) [0..<i]) [0..<length A] \<and>
     list_all (\<lambda>i. 0 < U ! i ! i) [0..<length A] \<and>
     list_all (\<lambda>i. list_all (\<lambda>k. (\<Sum>j<length A. U ! j ! i * U ! j ! k) = A ! i ! k)
                   [0..<length A]) [0..<length A]"

text \<open>
  The factor in the words of the specification: a lower triangular matrix \<open>L\<close> with
  \<open>L L\<^sup>T = a\<close>, so that \<open>L z\<close> has covariance \<open>a\<close> when \<open>z\<close> is standard normal.
\<close>

definition cholesky_lower :: "real list list \<Rightarrow> real list list \<Rightarrow> bool" where
  "cholesky_lower A L \<longleftrightarrow>
     length L = length A \<and> list_all (\<lambda>row. length row = length A) L \<and>
     list_all (\<lambda>i. list_all (\<lambda>j. L ! i ! j = 0) [Suc i..<length A]) [0..<length A] \<and>
     list_all (\<lambda>i. list_all (\<lambda>k. (\<Sum>j<length A. L ! i ! j * L ! k ! j) = A ! i ! k)
                   [0..<length A]) [0..<length A]"

subsection \<open>The likelihood in the words of the specification\<close>

definition exponent_spec :: "env \<Rightarrow> real list \<Rightarrow> real" where
  "exponent_spec e w =
     - 1 / (2 * sigma_y ^ 2) *
       (\<Sum>i<length (x_data e). (y_noisy e ! i - model_at (x_data e ! i) w) ^ 2)"

subsection \<open>The likelihood within the range of doubles\<close>

text \<open>
  \<^verbatim>\<open>fun_LL\<close> once more, with the range of doubles: the result of an operation on finite
  doubles is an infinity when its exact value reaches \<open>2 ^ 1024 - 2 ^ 970\<close>, the least
  magnitude that rounding to nearest sends to an infinity. The mantissa is not rounded.
  The operations on infinities and NaN are those of the arithmetic of doubles;
  \<^verbatim>\<open>np.sin\<close> of an infinity is a NaN (numpy warns), \<^verbatim>\<open>np.exp\<close> of \<open>-inf\<close> is 0, and
  \<^verbatim>\<open>np.sum\<close> adds the elements up from 0 (the elements being squares, the order in which
  numpy adds them does not change whether the sum overflows).
\<close>

definition f64_ovf :: real where
  "f64_ovf = 2 ^ 1024 - 2 ^ 970"

definition fits :: "real \<Rightarrow> bool" where
  "fits x \<longleftrightarrow> - f64_ovf < x \<and> x < f64_ovf"

definition f64_range :: "real \<Rightarrow> fval" where
  "f64_range x = (if f64_ovf \<le> x then PInf else if x \<le> - f64_ovf then NInf else Fin x)"

fun fmul :: "fval \<Rightarrow> fval \<Rightarrow> fval" where
  "fmul NaN b = NaN"
| "fmul a NaN = NaN"
| "fmul (Fin x) (Fin y) = f64_range (x * y)"
| "fmul (Fin x) PInf = (if x = 0 then NaN else if 0 < x then PInf else NInf)"
| "fmul (Fin x) NInf = (if x = 0 then NaN else if 0 < x then NInf else PInf)"
| "fmul PInf (Fin y) = (if y = 0 then NaN else if 0 < y then PInf else NInf)"
| "fmul NInf (Fin y) = (if y = 0 then NaN else if 0 < y then NInf else PInf)"
| "fmul PInf PInf = PInf"
| "fmul PInf NInf = NInf"
| "fmul NInf PInf = NInf"
| "fmul NInf NInf = PInf"

fun fadd :: "fval \<Rightarrow> fval \<Rightarrow> fval" where
  "fadd NaN b = NaN"
| "fadd a NaN = NaN"
| "fadd (Fin x) (Fin y) = f64_range (x + y)"
| "fadd (Fin x) PInf = PInf"
| "fadd (Fin x) NInf = NInf"
| "fadd PInf (Fin y) = PInf"
| "fadd NInf (Fin y) = NInf"
| "fadd PInf PInf = PInf"
| "fadd PInf NInf = NaN"
| "fadd NInf PInf = NaN"
| "fadd NInf NInf = NInf"

fun fneg :: "fval \<Rightarrow> fval" where
  "fneg (Fin x) = Fin (- x)"
| "fneg PInf = NInf"
| "fneg NInf = PInf"
| "fneg NaN = NaN"

definition fsub :: "fval \<Rightarrow> fval \<Rightarrow> fval" where
  "fsub a b = fadd a (fneg b)"

fun np_sin :: "fval \<Rightarrow> fval" where
  "np_sin (Fin x) = Fin (sin x)"
| "np_sin a = NaN"

fun np_exp_f64 :: "runtime \<Rightarrow> fval \<Rightarrow> fval" where
  "np_exp_f64 rt (Fin t) = Fin (np_exp rt t)"
| "np_exp_f64 rt NInf = Fin 0"
| "np_exp_f64 rt PInf = PInf"
| "np_exp_f64 rt NaN = NaN"

definition np_sum :: "fval list \<Rightarrow> fval" where
  "np_sum xs = foldl fadd (Fin 0) xs"

definition np_bin_f64 :: "(fval \<Rightarrow> fval \<Rightarrow> fval) \<Rightarrow> fval list \<Rightarrow> fval list \<Rightarrow> error + fval list" where
  "np_bin_f64 f a b =
     (if length a = length b then Inr (map2 f a b)
      else if length a = 1 then Inr (map (f (a ! 0)) b)
      else if length b = 1 then Inr (map (\<lambda>x. f x (b ! 0)) a)
      else Inl ValueError)"

definition model_at_f64 :: "real \<Rightarrow> real list \<Rightarrow> fval" where
  "model_at_f64 x w =
     fadd (fmul (Fin (w ! 0)) (np_sin (fmul (fmul (Fin (w ! 1)) (Fin x)) (Fin (pi / 2)))))
          (fmul (Fin (w ! 1)) (Fin x))"

definition increasing_sinus_model_f64 :: "real list \<Rightarrow> real list \<Rightarrow> error + fval list" where
  "increasing_sinus_model_f64 x w =
     (if length w < 2 then Inl IndexError else Inr (map (\<lambda>xi. model_at_f64 xi w) x))"

definition fun_LL_f64 :: "runtime \<Rightarrow> env \<Rightarrow> real list \<Rightarrow> error + fval" where
  "fun_LL_f64 rt e w =
     (case increasing_sinus_model_f64 (x_data e) w of
        Inl err \<Rightarrow> Inl err
      | Inr m \<Rightarrow>
          (case np_bin_f64 fsub (map Fin (y_noisy e)) m of
             Inl err \<Rightarrow> Inl err
           | Inr d \<Rightarrow>
               Inr (np_exp_f64 rt (fmul (Fin ((- 1) / 2 / sigma_y ^ 2))
                                    (np_sum (map (\<lambda>t. fmul t t) d))))))"

text \<open>
  No operation of \<^verbatim>\<open>fun_LL\<close> overflows on \<open>w\<close>: for each datum the products, the model,
  the residual and its square stay within the range, and so does the sum of the squares.
\<close>

definition in_range_at :: "real list \<Rightarrow> real \<Rightarrow> real \<Rightarrow> bool" where
  "in_range_at w x y \<longleftrightarrow>
     fits (w ! 1 * x) \<and> fits (w ! 1 * x * (pi / 2)) \<and>
     fits (w ! 0 * sin (w ! 1 * x * (pi / 2))) \<and> fits (model_at x w) \<and>
     fits (y - model_at x w) \<and> fits ((y - model_at x w) ^ 2)"

definition in_range :: "env \<Rightarrow> real list \<Rightarrow> bool" where
  "in_range e w \<longleftrightarrow>
     list_all (\<lambda>(x, y). in_range_at w x y) (zip (x_data e) (y_noisy e)) \<and>
     fits (sum_list (map (\<lambda>(x, y). (y - model_at x w) ^ 2) (zip (x_data e) (y_noisy e))))"

text \<open>The argument of the sine does not overflow at the abscissa \<open>x\<close>.\<close>

definition sin_fits :: "real list \<Rightarrow> real \<Rightarrow> bool" where
  "sin_fits w x \<longleftrightarrow> fits (w ! 1 * x) \<and> fits (w ! 1 * x * (pi / 2))"

text \<open>The squared residual of one datum, as \<^verbatim>\<open>fun_LL\<close> computes it.\<close>

definition square_f64 :: "real list \<Rightarrow> real \<Rightarrow> real \<Rightarrow> fval" where
  "square_f64 w x y = fmul (fsub (Fin y) (model_at_f64 x w)) (fsub (Fin y) (model_at_f64 x w))"

subsection \<open>A small run\<close>

text \<open>
  A runtime whose exponential underflows to zero below \<open>-745\<close> and is exact above, whose
  quotients are exact, and whose generator returns \<open>1/4\<close>, \<open>1 - exp (-2)\<close> and then
  \<open>1/2\<close> for ever: the two Gaussian draws of an iteration are then \<open>0\<close> and \<open>2\<close>.
\<close>

definition rt_demo :: runtime where
  "rt_demo = \<lparr>np_exp = (\<lambda>t. if t < - 745 then 0 else exp t), fp_round = Fin,
      mt_raw = (\<lambda>i. if i = 0 then 1 / 4 else if i = 1 then 1 - exp (- 2) else 1 / 2)\<rparr>"

definition g_demo :: rng_state where
  "g_demo = \<lparr>pos = 0, gauss_next = None\<rparr>"

text \<open>
  One datum at \<open>x = 3000\<close>, the factor of \<open>proposal_cov\<close>, one iteration from
  \<open>[0, 1/100]\<close>, whose candidate is \<open>[0, 3/100]\<close>. The model is 30 at the start and 90
  at the candidate: with the datum 30 the candidate's likelihood underflows, with the
  datum 90 the start's does, with the datum 300 both do.
\<close>

definition e_demo :: env where
  "e_demo = \<lparr>x_data = [3000], y_noisy = [30], R = [[sqrt (1 / 20), 0], [0, 1 / 100]],
      w_MLE = [0, 1 / 100], n_it = 1\<rparr>"

definition e_far :: env where
  "e_far = e_demo\<lparr>y_noisy := [90]\<rparr>"

definition e_nan :: env where
  "e_nan = e_demo\<lparr>y_noisy := [300]\<rparr>"

definition s_demo :: state where
  "s_demo = \<lparr>w_n = [[0, 1 / 100], [0, 0]], rng = g_demo\<rparr>"


text \<open>One datum at \<open>x = 10\<close>, where \<open>w[1] * x\<close> overflows for \<open>w[1] = 2 ^ 1023\<close>.\<close>

definition e_ovf :: env where
  "e_ovf = e_demo\<lparr>x_data := [10], y_noisy := [0]\<rparr>"

text \<open>The variables of the one iteration, for each of the three data.\<close>

definition it_demo :: iteration where
  "it_demo = \<lparr>mv_norm = [0, 2], w_cur = [0, 1 / 100], w_star = [0, 3 / 100], L_star = 0,
      L_cur = 1, r = Fin 0, alpha = Fin 0, u = 1 / 2,
      rng_after = \<lparr>pos = 3, gauss_next = None\<rparr>\<rparr>"

definition it_far :: iteration where
  "it_far = \<lparr>mv_norm = [0, 2], w_cur = [0, 1 / 100], w_star = [0, 3 / 100], L_star = 1,
      L_cur = 0, r = PInf, alpha = Fin 1, u = 1 / 2,
      rng_after = \<lparr>pos = 3, gauss_next = None\<rparr>\<rparr>"

definition it_nan :: iteration where
  "it_nan = \<lparr>mv_norm = [0, 2], w_cur = [0, 1 / 100], w_star = [0, 3 / 100], L_star = 0,
      L_cur = 0, r = NaN, alpha = Fin 1, u = 1 / 2,
      rng_after = \<lparr>pos = 3, gauss_next = None\<rparr>\<rparr>"


section \<open>Properties\<close>

subsection \<open>The generator\<close>

lemma runtime_ok_raw: "runtime_ok rt \<Longrightarrow> 0 \<le> mt_raw rt i \<and> mt_raw rt i < 1"
  by (simp add: runtime_ok_def)

lemma random_random_pos: "random_random rt g = (x, g') \<Longrightarrow> x = mt_raw rt (pos g) \<and> pos g' = pos g + 1 \<and> gauss_next g' = gauss_next g"
  by (auto simp: random_random_def)

lemma random_gauss_cached:
  "gauss_next g = Some c \<Longrightarrow> random_gauss rt mu sigma g = Inr (mu + c * sigma, g\<lparr>gauss_next := None\<rparr>)"
  by (simp add: random_gauss_def)

lemma random_gauss_fresh:
  assumes "runtime_ok rt" and "gauss_next g = None"
  shows "random_gauss rt mu sigma g =
         Inr (mu + cos (mt_raw rt (pos g) * (2 * pi)) * sqrt (- 2 * ln (1 - mt_raw rt (pos g + 1))) * sigma,
              g\<lparr>pos := pos g + 2,
                gauss_next := Some (sin (mt_raw rt (pos g) * (2 * pi)) * sqrt (- 2 * ln (1 - mt_raw rt (pos g + 1))))\<rparr>)"
proof -
  have "mt_raw rt (Suc (pos g)) < 1"
    using assms(1) runtime_ok_raw by blast
  then show ?thesis
    using assms(2) by (simp add: random_gauss_def random_random_def Let_def)
qed

lemma draw_mv_norm_ok:
  assumes "runtime_ok rt"
  shows "\<exists>mv g1. draw_mv_norm rt g = Inr (mv, g1) \<and> length mv = dim \<and> pos g1 = pos g + 2"
proof (cases "gauss_next g")
  case None
  from random_gauss_fresh[OF assms None, of 0 1]
  obtain z c where z: "random_gauss rt 0 1 g = Inr (z, g\<lparr>pos := pos g + 2, gauss_next := Some c\<rparr>)"
    by blast
  have "random_gauss rt 0 1 (g\<lparr>pos := pos g + 2, gauss_next := Some c\<rparr>)
        = Inr (0 + c * 1, g\<lparr>pos := pos g + 2, gauss_next := Some c\<rparr>\<lparr>gauss_next := None\<rparr>)"
    by (simp add: random_gauss_cached)
  with z show ?thesis
    by (simp add: draw_mv_norm_def dim_def upt_rec)
next
  case (Some c)
  let ?g = "g\<lparr>gauss_next := None\<rparr>"
  have a: "random_gauss rt 0 1 g = Inr (0 + c * 1, ?g)"
    using Some by (rule random_gauss_cached)
  have "gauss_next ?g = None" by simp
  from random_gauss_fresh[OF assms this, of 0 1]
  obtain z c' where z: "random_gauss rt 0 1 ?g = Inr (z, ?g\<lparr>pos := pos ?g + 2, gauss_next := Some c'\<rparr>)"
    by blast
  with a show ?thesis
    by (simp add: draw_mv_norm_def dim_def upt_rec)
qed

subsection \<open>The likelihood, the candidate and the iteration\<close>

lemma sum_list_map2_nth:
  "length xs = length ys \<Longrightarrow> sum_list (map2 f xs ys) = (\<Sum>i<length xs. f (xs ! i) (ys ! i) :: real)"
  by (simp add: sum_list_sum_nth atLeast0LessThan)

lemma fun_LL_value:
  assumes "2 \<le> length w" and "length (x_data e) = length (y_noisy e)"
  shows "fun_LL rt e w =
         Inr (np_exp rt (- 1 / (2 * sigma_y ^ 2) *
                (\<Sum>i<length (x_data e). (y_noisy e ! i - model_at (x_data e ! i) w) ^ 2)))"
proof -
  have m: "increasing_sinus_model (x_data e) w = Inr (map (\<lambda>xi. model_at xi w) (x_data e))"
    using assms(1) by (simp add: increasing_sinus_model_def)
  have d: "np_bin (-) (y_noisy e) (map (\<lambda>xi. model_at xi w) (x_data e))
           = Inr (map2 (-) (y_noisy e) (map (\<lambda>xi. model_at xi w) (x_data e)))"
    using assms(2) by (simp add: np_bin_def)
  have s: "sum_list (map (\<lambda>t. t ^ 2) (map2 (-) (y_noisy e) (map (\<lambda>xi. model_at xi w) (x_data e))))
           = (\<Sum>i<length (x_data e). (y_noisy e ! i - model_at (x_data e ! i) w) ^ 2)"
    using assms(2) by (simp add: sum_list_sum_nth atLeast0LessThan)
  show ?thesis
    by (simp only: fun_LL_def m d sum.case s) simp
qed

lemma np_matmul_value:
  assumes "list_all (\<lambda>row. length row = length v) A"
  shows "np_matmul A v = Inr (map (\<lambda>row. \<Sum>j<length v. row ! j * v ! j) A)"
proof -
  have "\<And>row. row \<in> set A \<Longrightarrow> sum_list (map2 (*) row v) = (\<Sum>j<length v. row ! j * v ! j)"
    using assms by (simp add: list_all_iff sum_list_map2_nth)
  then show ?thesis
    using assms by (simp add: np_matmul_def)
qed

lemma propose_value:
  assumes "length (R e) = dim" and "list_all (\<lambda>row. length row = dim) (R e)"
    and "length wc = dim" and "length mv = dim"
  shows "propose e wc mv = Inr (map (\<lambda>i. wc ! i + (\<Sum>j<dim. R e ! i ! j * mv ! j)) [0..<dim])"
proof -
  have "np_matmul (R e) mv = Inr (map (\<lambda>row. \<Sum>j<length mv. row ! j * mv ! j) (R e))"
    using assms(2,4) by (intro np_matmul_value) simp
  moreover have "map2 (+) wc (map (\<lambda>row. \<Sum>j<dim. row ! j * mv ! j) (R e))
        = map (\<lambda>i. wc ! i + (\<Sum>j<dim. R e ! i ! j * mv ! j)) [0..<dim]"
    using assms(1,3) by (intro nth_equalityI) simp_all
  ultimately show ?thesis
    using assms by (simp add: propose_def np_transpose_def np_bin_def)
qed

lemma mh_iterationD:
  assumes "mh_iteration rt e n s = Inr it"
  shows "\<exists>g1. draw_mv_norm rt (rng s) = Inr (mv_norm it, g1) \<and>
      get_row (w_n s) n = Inr (w_cur it) \<and>
      propose e (w_cur it) (mv_norm it) = Inr (w_star it) \<and>
      fun_LL rt e (w_star it) = Inr (L_star it) \<and>
      fun_LL rt e (w_cur it) = Inr (L_cur it) \<and>
      r it = fdiv (fp_round rt) (L_star it) (L_cur it) \<and>
      alpha it = min_1 (r it) \<and>
      u it = mt_raw rt (pos g1) \<and>
      rng_after it = g1\<lparr>pos := pos g1 + 1\<rparr>"
  using assms
  by (auto simp: mh_iteration_def random_random_def Let_def split: sum.splits prod.splits)

lemma mh_iteration_ok:
  assumes "runtime_ok rt" and "wf_env e" and "wf_state e s" and "n \<le> n_it e"
  shows "\<exists>it. mh_iteration rt e n s = Inr it"
proof -
  obtain mv g1 where d: "draw_mv_norm rt (rng s) = Inr (mv, g1)" "length mv = dim"
    using draw_mv_norm_ok[OF assms(1)] by blast
  have row: "get_row (w_n s) n = Inr (w_n s ! n)" "length (w_n s ! n) = dim"
    using assms(3,4) by (simp_all add: wf_state_def get_row_def list_all_length)
  have p: "propose e (w_n s ! n) mv = Inr (map (\<lambda>i. w_n s ! n ! i + (\<Sum>j<dim. R e ! i ! j * mv ! j)) [0..<dim])"
    using assms(2) row(2) d(2) by (intro propose_value) (simp_all add: wf_env_def)
  have xy: "length (x_data e) = length (y_noisy e)"
    using assms(2) by (simp add: wf_env_def)
  have l1: "\<exists>v. fun_LL rt e (map (\<lambda>i. w_n s ! n ! i + (\<Sum>j<dim. R e ! i ! j * mv ! j)) [0..<dim]) = Inr v"
    using fun_LL_value[OF _ xy, of "map (\<lambda>i. w_n s ! n ! i + (\<Sum>j<dim. R e ! i ! j * mv ! j)) [0..<dim]" rt]
    by (simp add: dim_def)
  have l2: "\<exists>v. fun_LL rt e (w_n s ! n) = Inr v"
    using fun_LL_value[OF _ xy, of "w_n s ! n" rt] row(2) by (simp add: dim_def)
  from l1 l2 show ?thesis
    by (auto simp: mh_iteration_def d row(1) p Let_def split: prod.splits)
qed

subsection \<open>The step and the loop\<close>

lemma propose_length:
  assumes "wf_env e" and "length wc = dim" and "length mv = dim" and "propose e wc mv = Inr ws"
  shows "length ws = dim"
  using propose_value[of e wc mv] assms by (auto simp: wf_env_def)

lemma draw_mv_norm_length:
  assumes "runtime_ok rt" and "draw_mv_norm rt g = Inr (mv, g1)"
  shows "length mv = dim"
  using draw_mv_norm_ok[OF assms(1), of g] assms(2) by auto

lemma mh_iteration_shape:
  assumes "runtime_ok rt" and "wf_env e" and "wf_state e s" and "n \<le> n_it e"
    and "mh_iteration rt e n s = Inr it"
  shows "w_cur it = w_n s ! n \<and> length (w_cur it) = dim \<and> length (w_star it) = dim"
proof -
  from mh_iterationD[OF assms(5)] obtain g1 where
    d: "draw_mv_norm rt (rng s) = Inr (mv_norm it, g1)"
    and g: "get_row (w_n s) n = Inr (w_cur it)"
    and p: "propose e (w_cur it) (mv_norm it) = Inr (w_star it)"
    by blast
  have c: "w_cur it = w_n s ! n"
    using g by (auto simp: get_row_def split: if_splits)
  have lc: "length (w_cur it) = dim"
    using assms(3,4) c by (simp add: wf_state_def list_all_length)
  have "length (w_star it) = dim"
    using propose_length[OF assms(2) lc draw_mv_norm_length[OF assms(1) d] p] .
  with c lc show ?thesis by simp
qed

lemma mh_step_value:
  assumes "runtime_ok rt" and "wf_env e" and "wf_state e s" and "n < n_it e"
    and "mh_iteration rt e n s = Inr it"
  shows "mh_step rt e n s =
         Inr \<lparr>w_n = (w_n s)[n + 1 := (if flt (Fin (u it)) (alpha it) then w_star it else w_n s ! n)],
              rng = rng_after it\<rparr>"
proof -
  have sh: "w_cur it = w_n s ! n" "length (w_star it) = dim"
    using mh_iteration_shape[OF assms(1,2,3) _ assms(5)] assms(4) by simp_all
  have len: "n + 1 < length (w_n s)" "length (w_n s ! n) = dim" "length (w_n s ! (n + 1)) = dim"
    using assms(3,4) by (simp_all add: wf_state_def list_all_length)
  show ?thesis
    using sh len by (simp add: mh_step_def assms(5) set_row_def get_row_def)
qed

lemma wf_state_update:
  assumes "wf_state e s" and "length v = dim"
  shows "wf_state e \<lparr>w_n = (w_n s)[k := v], rng = g\<rparr>"
  using assms set_update_subset_insert[of "w_n s" k v]
  by (auto simp: wf_state_def list_all_iff)

lemma mh_step_ok:
  assumes "runtime_ok rt" and "wf_env e" and "wf_state e s" and "n < n_it e"
  shows "\<exists>s'. mh_step rt e n s = Inr s' \<and> wf_state e s' \<and>
           (\<forall>k. k \<noteq> n + 1 \<longrightarrow> w_n s' ! k = w_n s ! k)"
proof -
  obtain it where it: "mh_iteration rt e n s = Inr it"
    using mh_iteration_ok[OF assms(1,2,3)] assms(4) by (meson less_imp_le)
  have sh: "length (w_star it) = dim" "length (w_n s ! n) = dim"
    using mh_iteration_shape[OF assms(1,2,3) _ it] assms(4) by auto
  have "wf_state e \<lparr>w_n = (w_n s)[n + 1 := (if flt (Fin (u it)) (alpha it) then w_star it else w_n s ! n)],
              rng = rng_after it\<rparr>"
    using sh by (intro wf_state_update[OF assms(3)]) simp
  then show ?thesis
    unfolding mh_step_value[OF assms it] by simp
qed

lemma mh_loop_append:
  "mh_loop rt e (xs @ ys) s =
     (case mh_loop rt e xs s of Inl err \<Rightarrow> Inl err | Inr s' \<Rightarrow> mh_loop rt e ys s')"
  by (induction xs arbitrary: s) (auto split: sum.splits)

lemma mh_loop_ok:
  assumes "runtime_ok rt" and "wf_env e" and "wf_state e s" and "b \<le> n_it e"
  shows "\<exists>s'. mh_loop rt e [a..<b] s = Inr s' \<and> wf_state e s' \<and>
           (\<forall>k\<le>a. w_n s' ! k = w_n s ! k)"
  using assms(3)
proof (induction "b - a" arbitrary: a s)
  case 0
  then show ?case by simp
next
  case (Suc d)
  then have ab: "a < b" and d: "d = b - Suc a" by simp_all
  then have "a < n_it e" using assms(4) by simp
  from mh_step_ok[OF assms(1,2) Suc.prems this] obtain s1 where
    s1: "mh_step rt e a s = Inr s1" "wf_state e s1" "\<forall>k. k \<noteq> a + 1 \<longrightarrow> w_n s1 ! k = w_n s ! k"
    by blast
  from Suc.hyps(1)[OF d s1(2)] obtain s' where
    s': "mh_loop rt e [Suc a..<b] s1 = Inr s'" "wf_state e s'" "\<forall>k\<le>Suc a. w_n s' ! k = w_n s1 ! k"
    by blast
  have "mh_loop rt e [a..<b] s = Inr s'"
    using ab s1(1) s'(1) by (simp add: upt_conv_Cons)
  moreover have "\<forall>k\<le>a. w_n s' ! k = w_n s ! k"
    using s'(3) s1(3) by simp
  ultimately show ?case using s'(2) by blast
qed

lemma mh_init_value:
  assumes "wf_env e"
  shows "mh_init e g0 = Inr \<lparr>w_n = (replicate (n_it e + 1) (replicate dim 0))[0 := w_MLE e], rng = g0\<rparr>"
  using assms by (simp add: mh_init_def set_row_def wf_env_def)

lemma mh_init_wf:
  assumes "wf_env e"
  shows "wf_state e \<lparr>w_n = (replicate (n_it e + 1) (replicate dim 0))[0 := w_MLE e], rng = g0\<rparr>"
  using assms set_update_subset_insert[of "replicate (n_it e + 1) (replicate dim 0)" 0 "w_MLE e"]
  by (auto simp: wf_state_def wf_env_def list_all_iff)

subsection \<open>The acceptance probability\<close>

lemma fle_not_flt: "fle a b \<Longrightarrow> \<not> flt b a"
  by (cases a; cases b) auto


lemma fp_round_mono: "runtime_ok rt \<Longrightarrow> a \<le> b \<Longrightarrow> fle (fp_round rt a) (fp_round rt b)"
  by (simp add: runtime_ok_def)


lemma fp_round_ge_1:
  assumes "runtime_ok rt" and "1 \<le> q"
  shows "fle (Fin 1) (fp_round rt q)"
  using fp_round_mono[OF assms] assms(1) by (simp add: runtime_ok_def)

lemma fun_LL_nonneg:
  assumes "runtime_ok rt" and "fun_LL rt e w = Inr v"
  shows "0 \<le> v"
  using assms by (auto simp: fun_LL_def runtime_ok_def split: sum.splits)


lemma min_1_better:
  assumes "runtime_ok rt" and "0 \<le> b" and "b \<le> a"
  shows "min_1 (fdiv (fp_round rt) a b) = Fin 1"
proof (cases "b = 0")
  case True
  then show ?thesis using assms(3) by (simp add: fdiv_def min_1_def)
next
  case False
  then have "1 \<le> a / b" using assms(2,3) by simp
  from fle_not_flt[OF fp_round_ge_1[OF assms(1) this]]
  show ?thesis using False by (simp add: fdiv_def min_1_def)
qed

lemma mh_iteration_nonneg:
  assumes "runtime_ok rt" and "mh_iteration rt e n s = Inr it"
  shows "0 \<le> L_star it \<and> 0 \<le> L_cur it"
  using mh_iterationD[OF assms(2)] fun_LL_nonneg[OF assms(1)] by blast

lemma mh_iteration_u:
  assumes "runtime_ok rt" and "mh_iteration rt e n s = Inr it"
  shows "0 \<le> u it \<and> u it < 1"
  using mh_iterationD[OF assms(2)] runtime_ok_raw[OF assms(1)] by auto

lemma mh_loop_split:
  assumes "n < m"
  shows "mh_loop rt e [0..<m] s =
     (case mh_loop rt e [0..<n] s of
        Inl err \<Rightarrow> Inl err
      | Inr sn \<Rightarrow>
          (case mh_step rt e n sn of
             Inl err \<Rightarrow> Inl err
           | Inr s' \<Rightarrow> mh_loop rt e [Suc n..<m] s'))"
proof -
  have "[0..<m] = [0..<n] @ n # [Suc n..<m]"
    using assms by (metis less_imp_le_nat upt_add_eq_append upt_conv_Cons plus_nat.add_0 le_add_diff_inverse zero_le)
  then show ?thesis
    by (simp add: mh_loop_append split: sum.splits)
qed

lemma draw_mv_norm_value:
  assumes "runtime_ok rt"
  shows "draw_mv_norm rt g =
     Inr (case gauss_next g of
            None \<Rightarrow> [cos (mt_raw rt (pos g) * (2 * pi)) * sqrt (- 2 * ln (1 - mt_raw rt (pos g + 1))),
                      sin (mt_raw rt (pos g) * (2 * pi)) * sqrt (- 2 * ln (1 - mt_raw rt (pos g + 1)))]
          | Some c \<Rightarrow> [c, cos (mt_raw rt (pos g) * (2 * pi)) * sqrt (- 2 * ln (1 - mt_raw rt (pos g + 1)))],
          g\<lparr>pos := pos g + 2,
            gauss_next := (case gauss_next g of
               None \<Rightarrow> None
             | Some c \<Rightarrow> Some (sin (mt_raw rt (pos g) * (2 * pi)) * sqrt (- 2 * ln (1 - mt_raw rt (pos g + 1)))))\<rparr>)"
proof (cases "gauss_next g")
  case None
  show ?thesis
    using None random_gauss_fresh[OF assms None, of 0 1]
    by (simp add: draw_mv_norm_def dim_def upt_rec random_gauss_cached numeral_2_eq_2)
next
  case (Some c)
  have "gauss_next (g\<lparr>gauss_next := None\<rparr>) = None" by simp
  from random_gauss_fresh[OF assms this, of 0 1] show ?thesis
    using Some by (simp add: draw_mv_norm_def dim_def upt_rec random_gauss_cached numeral_2_eq_2)
qed

lemma cholesky_upper_diag:
  assumes "cholesky_upper proposal_cov U"
  shows "U ! 0 ! 1 = 0 \<and> U ! 1 ! 0 = 0 \<and> U ! 0 ! 0 * U ! 0 ! 0 = 5 / 100 \<and> U ! 1 ! 1 * U ! 1 ! 1 = 1 / 10000"
proof -
  have l: "length proposal_cov = 2" by (simp add: proposal_cov_def)
  have z: "U ! 1 ! 0 = 0" and p: "0 < U ! 0 ! 0"
    and s01: "U ! 0 ! 0 * U ! 0 ! 1 + U ! 1 ! 0 * U ! 1 ! 1 = 0"
    and s00: "U ! 0 ! 0 * U ! 0 ! 0 + U ! 1 ! 0 * U ! 1 ! 0 = 5 / 100"
    and s11: "U ! 0 ! 1 * U ! 0 ! 1 + U ! 1 ! 1 * U ! 1 ! 1 = 1 / 10000"
    using assms unfolding cholesky_upper_def l
    by (auto simp: proposal_cov_def lessThan_Suc numeral_2_eq_2)
  have u01: "U ! 0 ! 1 = 0"
    using s01 z p by simp
  show ?thesis
    using z u01 s00 s11 by simp
qed

subsection \<open>The small run, evaluated\<close>

lemma runtime_ok_demo: "runtime_ok rt_demo"
  by (simp add: runtime_ok_def rt_demo_def)

lemma rt_demo_simps:
  "fp_round rt_demo = Fin" "mt_raw rt_demo 2 = 1 / 2"
  "np_exp rt_demo t = (if t < - 745 then 0 else exp t)"
  by (simp_all add: rt_demo_def)

lemma e_demo_simps:
  "x_data e_demo = [3000]" "y_noisy e_demo = [30]" "R e_demo = [[sqrt (1 / 20), 0], [0, 1 / 100]]"
  "w_MLE e_demo = [0, 1 / 100]" "n_it e_demo = 1"
  by (simp_all add: e_demo_def)

lemma e_far_simps:
  "x_data e_far = [3000]" "y_noisy e_far = [90]" "R e_far = [[sqrt (1 / 20), 0], [0, 1 / 100]]"
  "w_MLE e_far = [0, 1 / 100]" "n_it e_far = 1"
  by (simp_all add: e_far_def e_demo_def)

lemma e_nan_simps:
  "x_data e_nan = [3000]" "y_noisy e_nan = [300]" "R e_nan = [[sqrt (1 / 20), 0], [0, 1 / 100]]"
  "w_MLE e_nan = [0, 1 / 100]" "n_it e_nan = 1"
  by (simp_all add: e_nan_def e_demo_def)

lemma wf_env_demo: "wf_env e_demo" "wf_env e_far" "wf_env e_nan"
  by (simp_all add: wf_env_def e_demo_simps e_far_simps e_nan_simps dim_def)

lemma wf_state_demo: "wf_state e_demo s_demo" "wf_state e_far s_demo" "wf_state e_nan s_demo"
  by (simp_all add: wf_state_def e_demo_simps e_far_simps e_nan_simps s_demo_def dim_def)

lemma draw_demo: "draw_mv_norm rt_demo g_demo = Inr ([0, 2], \<lparr>pos = 2, gauss_next = None\<rparr>)"
  by (simp add: draw_mv_norm_def dim_def upt_rec random_gauss_def random_random_def
      rt_demo_def g_demo_def Let_def numeral_2_eq_2)

lemma propose_demo:
  "propose e_demo [0, 1 / 100] [0, 2] = Inr [0, 3 / 100]"
  "propose e_far [0, 1 / 100] [0, 2] = Inr [0, 3 / 100]"
  "propose e_nan [0, 1 / 100] [0, 2] = Inr [0, 3 / 100]"
  by (simp_all add: propose_def np_matmul_def np_transpose_def np_bin_def
      e_demo_simps e_far_simps e_nan_simps)

lemma fun_LL_demo:
  "fun_LL rt_demo e_demo [0, 1 / 100] = Inr 1"
  "fun_LL rt_demo e_demo [0, 3 / 100] = Inr 0"
  "fun_LL rt_demo e_far [0, 1 / 100] = Inr 0"
  "fun_LL rt_demo e_far [0, 3 / 100] = Inr 1"
  "fun_LL rt_demo e_nan [0, 1 / 100] = Inr 0"
  "fun_LL rt_demo e_nan [0, 3 / 100] = Inr 0"
  by (simp_all add: fun_LL_def increasing_sinus_model_def model_at_def np_bin_def
      e_demo_simps e_far_simps e_nan_simps rt_demo_simps sigma_y_def power2_eq_square)

lemma iteration_demo: "mh_iteration rt_demo e_demo 0 s_demo = Inr it_demo"
  by (simp add: mh_iteration_def s_demo_def draw_demo get_row_def propose_demo fun_LL_demo
      fdiv_def min_1_def random_random_def rt_demo_simps Let_def it_demo_def)

lemma iteration_far: "mh_iteration rt_demo e_far 0 s_demo = Inr it_far"
  by (simp add: mh_iteration_def s_demo_def draw_demo get_row_def propose_demo fun_LL_demo
      fdiv_def min_1_def random_random_def rt_demo_simps Let_def it_far_def)

lemma iteration_nan: "mh_iteration rt_demo e_nan 0 s_demo = Inr it_nan"
  by (simp add: mh_iteration_def s_demo_def draw_demo get_row_def propose_demo fun_LL_demo
      fdiv_def min_1_def random_random_def rt_demo_simps Let_def it_nan_def)

lemma n_it_demo: "0 < n_it e_demo" "0 < n_it e_far" "0 < n_it e_nan"
  by (simp_all add: e_demo_simps e_far_simps e_nan_simps)

lemma mh_init_demo:
  "mh_init e_demo g_demo = Inr s_demo" "mh_init e_far g_demo = Inr s_demo"
  "mh_init e_nan g_demo = Inr s_demo"
  by (simp_all add: mh_init_def set_row_def e_demo_simps e_far_simps e_nan_simps s_demo_def
      dim_def numeral_2_eq_2)

lemma cholesky_demo: "cholesky_upper proposal_cov (R e_demo)"
  by (simp add: cholesky_upper_def proposal_cov_def e_demo_simps lessThan_Suc numeral_2_eq_2
      real_sqrt_divide)

subsection \<open>The likelihood within the range of doubles; a ratio below one\<close>

lemma f64_ovf_pos: "0 < f64_ovf"
  by (simp add: f64_ovf_def)

lemma f64_range_fits: "fits x \<Longrightarrow> f64_range x = Fin x"
  by (simp add: fits_def f64_range_def)

lemma fsub_Fin: "fits (a - b) \<Longrightarrow> fsub (Fin a) (Fin b) = Fin (a - b)"
  by (simp add: fsub_def f64_range_fits)

lemma model_at_f64_fits:
  assumes "in_range_at w x y"
  shows "model_at_f64 x w = Fin (model_at x w)"
  using assms by (simp add: in_range_at_def model_at_f64_def model_at_def f64_range_fits)

lemma foldl_fadd_Fin:
  assumes "\<forall>t\<in>set ts. 0 \<le> t" and "0 \<le> acc" and "fits (acc + sum_list ts)"
  shows "foldl fadd (Fin acc) (map Fin ts) = Fin (acc + sum_list ts)"
  using assms
proof (induction ts arbitrary: acc)
  case Nil
  then show ?case by simp
next
  case (Cons t ts)
  have nn: "0 \<le> sum_list ts"
    using Cons.prems(1) by (simp add: sum_list_nonneg)
  have t0: "0 \<le> t" using Cons.prems(1) by simp
  have "fits (acc + t)"
    using Cons.prems(2,3) nn t0 f64_ovf_pos by (simp add: fits_def)
  then have "fadd (Fin acc) (Fin t) = Fin (acc + t)"
    by (simp add: f64_range_fits)
  moreover have "foldl fadd (Fin (acc + t)) (map Fin ts) = Fin (acc + t + sum_list ts)"
    using Cons.prems t0 by (intro Cons.IH) (simp_all add: add.assoc)
  ultimately show ?case by (simp add: add.assoc)
qed


lemma squares_f64:
  assumes "length xs = length ys"
    and "list_all (\<lambda>(x, y). in_range_at w x y) (zip xs ys)"
  shows "map (\<lambda>t. fmul t t) (map2 fsub (map Fin ys) (map (\<lambda>xi. model_at_f64 xi w) xs))
         = map Fin (map (\<lambda>(x, y). (y - model_at x w) ^ 2) (zip xs ys))"
  using assms
proof (induction xs ys rule: list_induct2)
  case Nil
  then show ?case by simp
next
  case (Cons x xs y ys)
  have r: "in_range_at w x y" using Cons.prems by simp
  then have a: "fits (y - model_at x w)" and b: "fits ((y - model_at x w) * (y - model_at x w))"
    by (simp_all add: in_range_at_def power2_eq_square)
  have "fmul (fsub (Fin y) (model_at_f64 x w)) (fsub (Fin y) (model_at_f64 x w))
        = Fin ((y - model_at x w) ^ 2)"
    by (simp add: model_at_f64_fits[OF r] fsub_Fin[OF a] f64_range_fits[OF b] power2_eq_square)
  then show ?case
    using Cons by simp
qed

lemma fun_LL_f64_value:
  assumes "2 \<le> length w" and "length (x_data e) = length (y_noisy e)" and "in_range e w"
  shows "fun_LL_f64 rt e w = Inr (Fin (np_exp rt (exponent_spec e w)))"
proof -
  let ?sq = "map (\<lambda>(x, y). (y - model_at x w) ^ 2) (zip (x_data e) (y_noisy e))"
  have ra: "list_all (\<lambda>(x, y). in_range_at w x y) (zip (x_data e) (y_noisy e))"
    and fs: "fits (sum_list ?sq)"
    using assms(3) by (simp_all add: in_range_def)
  have m: "increasing_sinus_model_f64 (x_data e) w = Inr (map (\<lambda>xi. model_at_f64 xi w) (x_data e))"
    using assms(1) by (simp add: increasing_sinus_model_f64_def)
  have d: "np_bin_f64 fsub (map Fin (y_noisy e)) (map (\<lambda>xi. model_at_f64 xi w) (x_data e))
           = Inr (map2 fsub (map Fin (y_noisy e)) (map (\<lambda>xi. model_at_f64 xi w) (x_data e)))"
    using assms(2) by (simp add: np_bin_f64_def)
  have nn: "\<forall>t\<in>set ?sq. 0 \<le> t" by auto
  have s0: "0 \<le> sum_list ?sq" by (rule sum_list_nonneg) auto
  have sm: "np_sum (map Fin ?sq) = Fin (sum_list ?sq)"
    using foldl_fadd_Fin[OF nn, of 0] fs by (simp add: np_sum_def)
  have c: "fits ((- 1) / 2 / sigma_y ^ 2 * sum_list ?sq)"
    using fs s0 by (simp add: fits_def sigma_y_def power2_eq_square)
  have ex: "(- 1) / 2 / sigma_y ^ 2 * sum_list ?sq = exponent_spec e w"
    using sum_list_map2_nth[OF assms(2), of "\<lambda>x y. (y - model_at x w) ^ 2"]
    by (simp add: exponent_spec_def)
  have "fun_LL_f64 rt e w =
        Inr (np_exp_f64 rt (fmul (Fin ((- 1) / 2 / sigma_y ^ 2)) (np_sum (map Fin ?sq))))"
    by (simp only: fun_LL_f64_def m d sum.case squares_f64[OF assms(2) ra])
  also have "\<dots> = Inr (Fin (np_exp rt (exponent_spec e w)))"
    using c by (simp only: sm fmul.simps ex f64_range_fits np_exp_f64.simps)
  finally show ?thesis .
qed

lemma f64_range_cases:
  "f64_range x = (if fits x then Fin x else if 0 \<le> x then PInf else NInf)"
  using f64_ovf_pos by (auto simp: f64_range_def fits_def)

lemma sin_arg_overflow:
  assumes "\<not> sin_fits w x"
  shows "np_sin (fmul (fmul (Fin (w ! 1)) (Fin x)) (Fin (pi / 2))) = NaN"
proof (cases "fits (w ! 1 * x)")
  case True
  then have "\<not> fits (w ! 1 * x * (pi / 2))"
    using assms by (simp add: sin_fits_def)
  then show ?thesis
    using True by (simp add: f64_range_cases)
next
  case False
  then show ?thesis
    by (simp add: f64_range_cases)
qed

lemma square_f64_nan:
  assumes "\<not> sin_fits w x"
  shows "square_f64 w x y = NaN"
  unfolding square_f64_def model_at_f64_def sin_arg_overflow[OF assms]
  by (simp add: fsub_def)

lemma fmul_self: "fmul a a = (case a of Fin t \<Rightarrow> f64_range (t * t) | NaN \<Rightarrow> NaN | _ \<Rightarrow> PInf)"
  by (cases a) simp_all

lemma fsub_Fin_cases:
  "fsub (Fin y) m = (case m of Fin t \<Rightarrow> f64_range (y - t) | PInf \<Rightarrow> NInf | NInf \<Rightarrow> PInf | NaN \<Rightarrow> NaN)"
  by (cases m) (simp_all add: fsub_def)

lemma square_f64_value:
  assumes "sin_fits w x"
  shows "square_f64 w x y = (if in_range_at w x y then Fin ((y - model_at x w) ^ 2) else PInf)"
proof -
  let ?s = "sin (w ! 1 * x * (pi / 2))"
  have b: "fmul (Fin (w ! 1)) (Fin x) = Fin (w ! 1 * x)"
    using assms by (simp add: sin_fits_def f64_range_cases)
  have s: "np_sin (fmul (Fin (w ! 1 * x)) (Fin (pi / 2))) = Fin ?s"
    using assms by (simp add: sin_fits_def f64_range_cases)
  have m: "model_at_f64 x w = fadd (f64_range (w ! 0 * ?s)) (Fin (w ! 1 * x))"
    unfolding model_at_f64_def b s by simp
  have sq: "0 \<le> (y - model_at x w) * (y - model_at x w)" by simp
  show ?thesis
  proof (cases "fits (w ! 0 * ?s)")
    case False
    then show ?thesis
      by (simp add: square_f64_def m f64_range_cases fsub_def in_range_at_def)
  next
    case a: True
    show ?thesis
    proof (cases "fits (model_at x w)")
      case False
      then have "\<not> fits (w ! 0 * ?s + w ! 1 * x)" by (simp add: model_at_def)
      then show ?thesis
        using a False by (simp add: square_f64_def m f64_range_cases fsub_def in_range_at_def)
    next
      case mm: True
      then have m': "model_at_f64 x w = Fin (model_at x w)"
        using a by (simp add: m f64_range_cases model_at_def)
      show ?thesis
      proof (cases "fits (y - model_at x w)")
        case False
        then show ?thesis
          by (simp add: square_f64_def m' fsub_Fin_cases f64_range_cases in_range_at_def)
      next
        case d: True
        show ?thesis
          using assms a mm d sq
          by (simp add: square_f64_def m' fsub_Fin_cases f64_range_cases in_range_at_def
              sin_fits_def power2_eq_square)
      qed
    qed
  qed
qed

lemma foldl_fadd_NaN: "foldl fadd NaN ts = NaN"
  by (induction ts) simp_all

lemma foldl_fadd_has_NaN: "NaN \<in> set ts \<Longrightarrow> foldl fadd a ts = NaN"
proof (induction ts arbitrary: a)
  case Nil
  then show ?case by simp
next
  case (Cons t ts)
  show ?case
  proof (cases "t = NaN")
    case True
    then have "fadd a t = NaN" by (cases a) simp_all
    then show ?thesis by (simp add: foldl_fadd_NaN)
  next
    case False
    then show ?thesis using Cons by simp
  qed
qed

lemma foldl_fadd_PInf:
  "foldl fadd PInf (map (\<lambda>p. if P p then Fin (f p) else PInf) ps) = PInf"
  by (induction ps) simp_all

lemma foldl_fadd_squares:
  assumes "\<forall>p\<in>set ps. 0 \<le> f p" and "0 \<le> acc" and "fits acc"
  shows "foldl fadd (Fin acc) (map (\<lambda>p. if P p then Fin (f p) else PInf) ps)
         = (if list_all P ps \<and> fits (acc + sum_list (map f ps))
            then Fin (acc + sum_list (map f ps)) else PInf)"
  using assms
proof (induction ps arbitrary: acc)
  case Nil
  then show ?case by simp
next
  case (Cons p ps)
  have nn: "0 \<le> sum_list (map f ps)"
    using Cons.prems(1) by (intro sum_list_nonneg) auto
  have p0: "0 \<le> f p" using Cons.prems(1) by simp
  show ?case
  proof (cases "P p \<and> fits (acc + f p)")
    case True
    then have "foldl fadd (Fin acc) (map (\<lambda>p. if P p then Fin (f p) else PInf) (p # ps))
               = foldl fadd (Fin (acc + f p)) (map (\<lambda>p. if P p then Fin (f p) else PInf) ps)"
      by (simp add: f64_range_cases)
    also have "\<dots> = (if list_all P ps \<and> fits (acc + f p + sum_list (map f ps))
            then Fin (acc + f p + sum_list (map f ps)) else PInf)"
      using Cons.prems True p0 by (intro Cons.IH) simp_all
    finally show ?thesis
      using True by (simp add: add.assoc)
  next
    case False
    have "\<not> (P p \<and> fits (acc + (f p + sum_list (map f ps))))"
      using False nn p0 Cons.prems(2) f64_ovf_pos by (auto simp: fits_def)
    moreover have "foldl fadd (Fin acc) (map (\<lambda>p. if P p then Fin (f p) else PInf) (p # ps)) = PInf"
      using False p0 Cons.prems(2) by (auto simp: f64_range_cases foldl_fadd_PInf)
    ultimately show ?thesis by auto
  qed
qed


lemma squares_f64_map:
  assumes "length xs = length ys"
  shows "map (\<lambda>t. fmul t t) (map2 fsub (map Fin ys) (map (\<lambda>xi. model_at_f64 xi w) xs))
         = map (\<lambda>(x, y). square_f64 w x y) (zip xs ys)"
  using assms by (induction xs ys rule: list_induct2) (simp_all add: square_f64_def)

lemma in_range_sin_fits:
  assumes "length (x_data e) = length (y_noisy e)" and "in_range e w"
  shows "list_all (sin_fits w) (x_data e)"
proof -
  have "\<forall>i<length (x_data e). in_range_at w (x_data e ! i) (y_noisy e ! i)"
    using assms by (simp add: in_range_def list_all_length)
  then show ?thesis
    by (simp add: list_all_length in_range_at_def sin_fits_def)
qed

lemma fun_LL_f64_cases:
  assumes "2 \<le> length w" and "length (x_data e) = length (y_noisy e)"
  shows "fun_LL_f64 rt e w =
         Inr (if list_all (sin_fits w) (x_data e)
              then (if in_range e w then Fin (np_exp rt (exponent_spec e w)) else Fin 0)
              else NaN)"
proof -
  let ?ps = "zip (x_data e) (y_noisy e)"
  let ?c = "(- 1) / 2 / sigma_y ^ 2 :: real"
  have m: "increasing_sinus_model_f64 (x_data e) w = Inr (map (\<lambda>xi. model_at_f64 xi w) (x_data e))"
    using assms(1) by (simp add: increasing_sinus_model_f64_def)
  have d: "np_bin_f64 fsub (map Fin (y_noisy e)) (map (\<lambda>xi. model_at_f64 xi w) (x_data e))
           = Inr (map2 fsub (map Fin (y_noisy e)) (map (\<lambda>xi. model_at_f64 xi w) (x_data e)))"
    using assms(2) by (simp add: np_bin_f64_def)
  have f: "fun_LL_f64 rt e w =
        Inr (np_exp_f64 rt (fmul (Fin ?c) (np_sum (map (\<lambda>(x, y). square_f64 w x y) ?ps))))"
    by (simp only: fun_LL_f64_def m d sum.case squares_f64_map[OF assms(2)])
  have cneg: "?c < 0" "?c \<noteq> 0"
    by (simp_all add: sigma_y_def)
  show ?thesis
  proof (cases "list_all (sin_fits w) (x_data e)")
    case False
    then obtain i where i: "i < length (x_data e)" "\<not> sin_fits w (x_data e ! i)"
      by (auto simp: list_all_length)
    have "(x_data e ! i, y_noisy e ! i) \<in> set ?ps"
      using i(1) assms(2) by (metis in_set_zip fst_conv snd_conv)
    then have "square_f64 w (x_data e ! i) (y_noisy e ! i)
               \<in> set (map (\<lambda>(x, y). square_f64 w x y) ?ps)"
      by force
    then have "NaN \<in> set (map (\<lambda>(x, y). square_f64 w x y) ?ps)"
      by (simp only: square_f64_nan[OF i(2)])
    then have "np_sum (map (\<lambda>(x, y). square_f64 w x y) ?ps) = NaN"
      unfolding np_sum_def by (rule foldl_fadd_has_NaN)
    then show ?thesis
      using False by (simp add: f)
  next
    case True
    have eq: "map (\<lambda>(x, y). square_f64 w x y) ?ps
          = map (\<lambda>p. if (case p of (x, y) \<Rightarrow> in_range_at w x y)
                       then Fin (case p of (x, y) \<Rightarrow> (y - model_at x w) ^ 2) else PInf) ?ps"
    proof (rule map_cong[OF refl])
      fix p assume "p \<in> set ?ps"
      then have "fst p \<in> set (x_data e)"
        by (metis in_set_zipE prod.collapse)
      then have "sin_fits w (fst p)"
        using True by (simp add: list_all_iff)
      from square_f64_value[OF this, of "snd p"]
      show "(case p of (x, y) \<Rightarrow> square_f64 w x y)
            = (if (case p of (x, y) \<Rightarrow> in_range_at w x y)
               then Fin (case p of (x, y) \<Rightarrow> (y - model_at x w) ^ 2) else PInf)"
        by (simp add: case_prod_beta)
    qed
    have fo: "foldl fadd (Fin 0)
          (map (\<lambda>p. if (case p of (x, y) \<Rightarrow> in_range_at w x y)
                     then Fin (case p of (x, y) \<Rightarrow> (y - model_at x w) ^ 2) else PInf) ?ps)
          = (if list_all (\<lambda>(x, y). in_range_at w x y) ?ps
                \<and> fits (0 + sum_list (map (\<lambda>(x, y). (y - model_at x w) ^ 2) ?ps))
             then Fin (0 + sum_list (map (\<lambda>(x, y). (y - model_at x w) ^ 2) ?ps)) else PInf)"
      by (rule foldl_fadd_squares) (auto simp: fits_def f64_ovf_pos)
    have sm: "np_sum (map (\<lambda>(x, y). square_f64 w x y) ?ps)
          = (if in_range e w
             then Fin (sum_list (map (\<lambda>(x, y). (y - model_at x w) ^ 2) ?ps)) else PInf)"
      unfolding np_sum_def eq fo in_range_def by simp
    show ?thesis
    proof (cases "in_range e w")
      case r: True
      show ?thesis
        using fun_LL_f64_value[OF assms r, of rt] True r by simp
    next
      case False
      then show ?thesis
        using True cneg by (simp add: f sm)
    qed
  qed
qed

lemma f64_ovf_large: "10 ^ 9 < f64_ovf"
  by (simp add: f64_ovf_def)

lemma fits_small: "\<bar>x\<bar> \<le> 10 ^ 9 \<Longrightarrow> fits x"
  using f64_ovf_large by (simp add: fits_def abs_le_iff)

lemma in_range_demo: "in_range e_demo [0, 3 / 100]"
proof -
  have p: "\<bar>90 * (pi / 2)\<bar> \<le> 10 ^ 9"
    using pi_gt_zero pi_less_4 by simp
  have "fits (3 / 100 * 3000 * (pi / 2))"
    using fits_small[OF p] by simp
  then show ?thesis
    by (simp add: in_range_def in_range_at_def e_demo_simps model_at_def fits_small)
qed







section \<open>The claims\<close>

text \<open>
  C1. For every number of iterations, zero included, the run returns without an error an
  array \<open>w_n\<close> of exactly \<open>n_it + 1\<close> rows whose row 0 is the starting vector; and for
  every \<open>n < n_it\<close>, row \<open>n + 1\<close> is either the candidate \<open>w_star\<close> that iteration
  \<open>n\<close> drew from row \<open>n\<close>, or row \<open>n\<close> again: no row is skipped.
\<close>

theorem trajectory_has_one_row_per_iteration:
  assumes "runtime_ok rt" and "wf_env e"
  shows "\<exists>s0 sf. mh_init e g0 = Inr s0 \<and> mh_run rt e g0 = Inr sf \<and>
           length (w_n sf) = n_it e + 1 \<and> w_n sf ! 0 = w_MLE e \<and>
           (\<forall>n<n_it e. \<exists>sn it.
               mh_loop rt e [0..<n] s0 = Inr sn \<and> mh_iteration rt e n sn = Inr it \<and>
               w_cur it = w_n sf ! n \<and>
               w_n sf ! (n + 1) = (if flt (Fin (u it)) (alpha it) then w_star it else w_n sf ! n))"
proof -
  define s0 where "s0 = \<lparr>w_n = (replicate (n_it e + 1) (replicate dim 0))[0 := w_MLE e], rng = g0\<rparr>"
  have i: "mh_init e g0 = Inr s0"
    unfolding s0_def by (rule mh_init_value[OF assms(2)])
  have w0: "wf_state e s0"
    unfolding s0_def by (rule mh_init_wf[OF assms(2)])
  obtain sf where sf: "mh_loop rt e [0..<n_it e] s0 = Inr sf" "wf_state e sf"
    "\<forall>k\<le>0. w_n sf ! k = w_n s0 ! k"
    using mh_loop_ok[OF assms w0 order_refl, of 0] by blast
  have run: "mh_run rt e g0 = Inr sf"
    by (simp add: mh_run_def i sf(1))
  have len: "length (w_n sf) = n_it e + 1"
    using sf(2) by (simp add: wf_state_def)
  have first: "w_n sf ! 0 = w_MLE e"
    using sf(3) by (simp add: s0_def)
  have steps: "\<exists>sn it. mh_loop rt e [0..<n] s0 = Inr sn \<and> mh_iteration rt e n sn = Inr it \<and>
               w_cur it = w_n sf ! n \<and>
               w_n sf ! (n + 1) = (if flt (Fin (u it)) (alpha it) then w_star it else w_n sf ! n)"
    if n: "n < n_it e" for n
  proof -
    obtain sn where sn: "mh_loop rt e [0..<n] s0 = Inr sn" "wf_state e sn"
      using mh_loop_ok[OF assms w0, of n 0] n by auto
    obtain it where it: "mh_iteration rt e n sn = Inr it"
      using mh_iteration_ok[OF assms sn(2)] n by (meson less_imp_le)
    define s' where "s' = \<lparr>w_n = (w_n sn)[n + 1 := (if flt (Fin (u it)) (alpha it) then w_star it else w_n sn ! n)],
                            rng = rng_after it\<rparr>"
    have st: "mh_step rt e n sn = Inr s'"
      unfolding s'_def by (rule mh_step_value[OF assms sn(2) n it])
    have ws': "wf_state e s'"
      using mh_step_ok[OF assms sn(2) n] st by auto
    obtain sf' where sf': "mh_loop rt e [Suc n..<n_it e] s' = Inr sf'"
      "\<forall>k\<le>Suc n. w_n sf' ! k = w_n s' ! k"
      using mh_loop_ok[OF assms ws' order_refl, of "Suc n"] by blast
    have "mh_loop rt e [0..<n_it e] s0 = Inr sf'"
      by (simp add: mh_loop_split[OF n] sn(1) st sf'(1))
    then have eq: "sf' = sf" using sf(1) by simp
    have ln: "n + 1 < length (w_n sn)"
      using sn(2) n by (simp add: wf_state_def)
    have a: "w_n sf ! n = w_n sn ! n"
      using sf'(2) eq by (simp add: s'_def)
    have b: "w_n sf ! (n + 1) = (if flt (Fin (u it)) (alpha it) then w_star it else w_n sn ! n)"
      using sf'(2) eq ln by (simp add: s'_def)
    have c: "w_cur it = w_n sn ! n"
      using mh_iteration_shape[OF assms sn(2) _ it] n by simp
    show ?thesis
      using sn(1) it a b c by simp
  qed
  show ?thesis
    using i run len first steps by blast
qed

theorem trajectory_has_one_row_per_iteration_witness:
  "runtime_ok rt_demo \<and> wf_env e_demo \<and>
   (\<exists>s0 sf. mh_init e_demo g_demo = Inr s0 \<and> mh_run rt_demo e_demo g_demo = Inr sf \<and>
           length (w_n sf) = n_it e_demo + 1 \<and> w_n sf ! 0 = w_MLE e_demo \<and>
           (\<forall>n<n_it e_demo. \<exists>sn it.
               mh_loop rt_demo e_demo [0..<n] s0 = Inr sn \<and>
               mh_iteration rt_demo e_demo n sn = Inr it \<and>
               w_cur it = w_n sf ! n \<and>
               w_n sf ! (n + 1) = (if flt (Fin (u it)) (alpha it) then w_star it else w_n sf ! n)))"
  using trajectory_has_one_row_per_iteration[OF runtime_ok_demo wf_env_demo(1), of g_demo]
    runtime_ok_demo wf_env_demo(1)
  by blast

text \<open>
  C2, as the code has it. On a parameter vector of \<open>dim\<close> finite entries and paired data,
  \<^verbatim>\<open>fun_LL\<close> raises nothing. When no operation of its computation overflows, it returns
  \<^verbatim>\<open>np.exp\<close> of \<open>-1/(2 sigma_y\<^sup>2)\<close> times the sum over the data of the squared residuals
  \<open>(y\<^sub>i - model(x\<^sub>i, w))\<^sup>2\<close>: a number that is not negative, \<open>exp\<close> of that exponent
  when the exponential is computed exactly, and the value of the likelihood in exact
  arithmetic. When the argument \<open>w[1] * x\<^sub>i * (pi/2)\<close> of the sine overflows for some datum it
  returns a NaN, and when only a later operation overflows it returns 0. The result
  depends on the data and on \<open>w\<close> only.
\<close>

theorem fun_LL_is_the_gaussian_likelihood_in_range:
  assumes "runtime_ok rt" and "length w = dim" and "length (x_data e) = length (y_noisy e)"
  shows "(\<exists>v. fun_LL_f64 rt e w = Inr v) \<and>
         fun_LL_f64 rt e w =
           Inr (if list_all (sin_fits w) (x_data e)
                then (if in_range e w then Fin (np_exp rt (exponent_spec e w)) else Fin 0)
                else NaN) \<and>
         (in_range e w \<longrightarrow>
            fun_LL_f64 rt e w = Inr (Fin (np_exp rt (exponent_spec e w))) \<and>
            0 \<le> np_exp rt (exponent_spec e w) \<and>
            fun_LL_f64 (rt\<lparr>np_exp := exp\<rparr>) e w = Inr (Fin (exp (exponent_spec e w))) \<and>
            fun_LL rt e w = Inr (np_exp rt (exponent_spec e w)))"
proof -
  have w: "2 \<le> length w" using assms(2) by (simp add: dim_def)
  have cs: "fun_LL_f64 rt e w =
           Inr (if list_all (sin_fits w) (x_data e)
                then (if in_range e w then Fin (np_exp rt (exponent_spec e w)) else Fin 0)
                else NaN)"
    by (rule fun_LL_f64_cases[OF w assms(3)])
  then have tot: "\<exists>v. fun_LL_f64 rt e w = Inr v"
    by blast
  have nn: "0 \<le> np_exp rt (exponent_spec e w)"
    using assms(1) by (simp add: runtime_ok_def)
  have ex: "fun_LL rt e w = Inr (np_exp rt (exponent_spec e w))"
    using fun_LL_value[OF w assms(3), of rt] by (simp add: exponent_spec_def)
  have inr: "in_range e w \<longrightarrow>
            fun_LL_f64 rt e w = Inr (Fin (np_exp rt (exponent_spec e w))) \<and>
            0 \<le> np_exp rt (exponent_spec e w) \<and>
            fun_LL_f64 (rt\<lparr>np_exp := exp\<rparr>) e w = Inr (Fin (exp (exponent_spec e w))) \<and>
            fun_LL rt e w = Inr (np_exp rt (exponent_spec e w))"
    using nn ex fun_LL_f64_value[OF w assms(3), of rt]
      fun_LL_f64_value[OF w assms(3), of "rt\<lparr>np_exp := exp\<rparr>"]
    by simp
  show ?thesis
    using tot cs inr by blast
qed

theorem fun_LL_is_the_gaussian_likelihood_in_range_witness:
  "runtime_ok rt_demo \<and> length [0, 3 / 100 :: real] = dim \<and>
   length (x_data e_demo) = length (y_noisy e_demo) \<and> in_range e_demo [0, 3 / 100] \<and>
   (\<exists>v. fun_LL_f64 rt_demo e_demo [0, 3 / 100] = Inr v) \<and>
   fun_LL_f64 rt_demo e_demo [0, 3 / 100] =
     Inr (if list_all (sin_fits [0, 3 / 100]) (x_data e_demo)
          then (if in_range e_demo [0, 3 / 100]
                then Fin (np_exp rt_demo (exponent_spec e_demo [0, 3 / 100])) else Fin 0)
          else NaN) \<and>
   fun_LL_f64 rt_demo e_demo [0, 3 / 100] = Inr (Fin (np_exp rt_demo (exponent_spec e_demo [0, 3 / 100]))) \<and>
   0 \<le> np_exp rt_demo (exponent_spec e_demo [0, 3 / 100]) \<and>
   fun_LL_f64 (rt_demo\<lparr>np_exp := exp\<rparr>) e_demo [0, 3 / 100] = Inr (Fin (exp (exponent_spec e_demo [0, 3 / 100]))) \<and>
   fun_LL rt_demo e_demo [0, 3 / 100] = Inr (np_exp rt_demo (exponent_spec e_demo [0, 3 / 100])) \<and>
   exponent_spec e_demo [0, 3 / 100] = - 800"
proof -
  have a: "length [0, 3 / 100 :: real] = dim" by (simp add: dim_def)
  have b: "length (x_data e_demo) = length (y_noisy e_demo)" by (simp add: e_demo_simps)
  have c: "exponent_spec e_demo [0, 3 / 100] = - 800"
    by (simp add: exponent_spec_def e_demo_simps model_at_def sigma_y_def power2_eq_square)
  show ?thesis
    using fun_LL_is_the_gaussian_likelihood_in_range[OF runtime_ok_demo a b]
      runtime_ok_demo a b in_range_demo c
    by blast
qed

text \<open>
  C2, as stated, fails. The vector \<open>[0, 2 ^ 1023]\<close> is finite, but with the datum at
  \<open>x = 10\<close> the product \<open>w[1] * x\<close> overflows to \<open>+inf\<close>, \<^verbatim>\<open>np.sin\<close> of it is a NaN, and
  \<^verbatim>\<open>fun_LL\<close> returns a NaN, which is not a nonnegative scalar.
\<close>

theorem fun_LL_finite_vector_counterexample:
  "length [0, 2 ^ 1023 :: real] = dim \<and> fits 0 \<and> fits (2 ^ 1023) \<and>
   length (x_data e_ovf) = length (y_noisy e_ovf) \<and>
   fmul (Fin (2 ^ 1023)) (Fin 10) = PInf \<and>
   fun_LL_f64 rt_demo e_ovf [0, 2 ^ 1023] = Inr NaN"
proof -
  have e: "x_data e_ovf = [10]" "y_noisy e_ovf = [0]"
    by (simp_all add: e_ovf_def e_demo_def)
  have f: "fits 0" "fits (2 ^ 1023)"
    by (simp_all add: fits_def f64_ovf_def)
  have m: "fmul (Fin (2 ^ 1023)) (Fin 10) = PInf"
    by (simp add: f64_range_def f64_ovf_def)
  have "model_at_f64 10 [0, 2 ^ 1023] = NaN"
    by (simp add: model_at_f64_def f64_range_def f64_ovf_def)
  then have "fun_LL_f64 rt_demo e_ovf [0, 2 ^ 1023] = Inr NaN"
    by (simp add: fun_LL_f64_def increasing_sinus_model_f64_def np_bin_f64_def e fsub_def
        np_sum_def)
  then show ?thesis
    using e f m by (simp add: dim_def)
qed

text \<open>
  C3. For every current vector \<open>w\<close> and every vector \<open>z\<close> of \<open>dim\<close> draws, the candidate
  is \<open>w + R z\<close>. \<open>R\<close> is what \<^verbatim>\<open>linalg.cholesky\<close> returns for \<open>proposal_cov\<close>, an upper
  triangular factor; \<open>proposal_cov\<close> being diagonal, \<open>R\<close> is diagonal, hence also the
  lower triangular factor with \<open>R R\<^sup>T = proposal_cov\<close>. The step \<open>R z\<close> is odd in \<open>z\<close>:
  the draws \<open>-z\<close> give the mirror image of the candidate about \<open>w\<close>.
\<close>

theorem candidate_is_current_plus_factor_times_draws:
  assumes "cholesky_upper proposal_cov (R e)" and "length w = dim" and "length z = dim"
  shows "cholesky_lower proposal_cov (R e) \<and>
         propose e w z = Inr (map (\<lambda>i. w ! i + (\<Sum>j<dim. R e ! i ! j * z ! j)) [0..<dim]) \<and>
         propose e w (map uminus z) = Inr (map (\<lambda>i. w ! i - (\<Sum>j<dim. R e ! i ! j * z ! j)) [0..<dim])"
proof -
  have l: "length proposal_cov = 2" by (simp add: proposal_cov_def)
  have sh: "length (R e) = dim" "list_all (\<lambda>row. length row = dim) (R e)"
    using assms(1) unfolding cholesky_upper_def l by (simp_all add: dim_def)
  from cholesky_upper_diag[OF assms(1)] have d:
    "R e ! 0 ! 1 = 0" "R e ! 1 ! 0 = 0" "R e ! 0 ! 0 * R e ! 0 ! 0 = 5 / 100"
    "R e ! 1 ! 1 * R e ! 1 ! 1 = 1 / 10000"
    by simp_all
  have low: "cholesky_lower proposal_cov (R e)"
    unfolding cholesky_lower_def l using sh d
    by (simp add: dim_def proposal_cov_def lessThan_Suc numeral_2_eq_2)
  have "length (map uminus z) = dim" using assms(3) by simp
  from propose_value[OF sh assms(2) this]
  have "propose e w (map uminus z) = Inr (map (\<lambda>i. w ! i - (\<Sum>j<dim. R e ! i ! j * z ! j)) [0..<dim])"
    using assms(3) by (simp add: sum_negf)
  with low propose_value[OF sh assms(2,3)] show ?thesis by simp
qed

theorem candidate_is_current_plus_factor_times_draws_witness:
  "cholesky_upper proposal_cov (R e_demo) \<and> length [0, 1 / 100 :: real] = dim \<and>
   length [0, 2 :: real] = dim \<and>
   cholesky_lower proposal_cov (R e_demo) \<and>
   propose e_demo [0, 1 / 100] [0, 2] =
     Inr (map (\<lambda>i. [0, 1 / 100] ! i + (\<Sum>j<dim. R e_demo ! i ! j * [0, 2] ! j)) [0..<dim]) \<and>
   propose e_demo [0, 1 / 100] (map uminus [0, 2]) =
     Inr (map (\<lambda>i. [0, 1 / 100] ! i - (\<Sum>j<dim. R e_demo ! i ! j * [0, 2] ! j)) [0..<dim]) \<and>
   propose e_demo [0, 1 / 100] [0, 2] = Inr [0, 3 / 100]"
proof -
  have a: "length [0, 1 / 100 :: real] = dim" "length [0, 2 :: real] = dim"
    by (simp_all add: dim_def)
  show ?thesis
    using candidate_is_current_plus_factor_times_draws[OF cholesky_demo a] cholesky_demo a
      propose_demo(1)
    by blast
qed



text \<open>
  C5. In an iteration where the likelihood of the candidate is at least the likelihood of
  row \<open>n\<close>, \<open>alpha\<close> is 1, the number \<open>u\<close> drawn in \<open>[0, 1)\<close> is below it whatever it
  is, and the step writes the candidate into row \<open>n + 1\<close>.
\<close>

theorem better_candidate_always_accepted:
  assumes "runtime_ok rt" and "wf_env e" and "wf_state e s" and "n < n_it e"
    and "mh_iteration rt e n s = Inr it" and "L_cur it \<le> L_star it"
  shows "fun_LL rt e (w_star it) = Inr (L_star it) \<and> fun_LL rt e (w_n s ! n) = Inr (L_cur it) \<and>
         alpha it = Fin 1 \<and> (\<forall>v. 0 \<le> v \<and> v < 1 \<longrightarrow> flt (Fin v) (alpha it)) \<and>
         flt (Fin (u it)) (alpha it) \<and>
         (\<exists>s'. mh_step rt e n s = Inr s' \<and> w_n s' ! (n + 1) = w_star it)"
proof -
  have ll: "fun_LL rt e (w_star it) = Inr (L_star it)" "fun_LL rt e (w_n s ! n) = Inr (L_cur it)"
    using mh_iterationD[OF assms(5)] mh_iteration_shape[OF assms(1,2,3) _ assms(5)] assms(4)
    by auto
  have a: "alpha it = Fin 1"
    using mh_iterationD[OF assms(5)] min_1_better[OF assms(1) _ assms(6)]
      mh_iteration_nonneg[OF assms(1,5)] by auto
  have acc: "flt (Fin (u it)) (alpha it)"
    using a mh_iteration_u[OF assms(1,5)] by simp
  have "n + 1 < length (w_n s)"
    using assms(3,4) by (simp add: wf_state_def)
  then show ?thesis
    using a acc ll by (simp add: mh_step_value[OF assms(1-5)])
qed

theorem better_candidate_always_accepted_witness:
  "runtime_ok rt_demo \<and> wf_env e_far \<and> wf_state e_far s_demo \<and> 0 < n_it e_far \<and>
   mh_iteration rt_demo e_far 0 s_demo = Inr it_far \<and> L_cur it_far \<le> L_star it_far \<and>
   alpha it_far = Fin 1 \<and> flt (Fin (u it_far)) (alpha it_far) \<and>
   (\<exists>s'. mh_step rt_demo e_far 0 s_demo = Inr s' \<and> w_n s' ! (0 + 1) = w_star it_far)"
proof -
  have h: "L_cur it_far \<le> L_star it_far" by (simp add: it_far_def)
  show ?thesis
    using better_candidate_always_accepted[OF runtime_ok_demo wf_env_demo(2) wf_state_demo(2)
        n_it_demo(2) iteration_far h]
      runtime_ok_demo wf_env_demo(2) wf_state_demo(2) n_it_demo(2) iteration_far h
    by blast
qed

text \<open>
  C6. A step returns an array of the same length that differs from the one it was given
  in row \<open>n + 1\<close> at most: every other row, the rows \<open>0..n\<close> among them, is unchanged. When
  the draw \<open>u\<close> is not below \<open>alpha\<close>, the new row \<open>n + 1\<close> is equal to row \<open>n\<close>.
\<close>

theorem rejection_repeats_current_row:
  assumes "runtime_ok rt" and "wf_env e" and "wf_state e s" and "n < n_it e"
  shows "\<exists>it s'. mh_iteration rt e n s = Inr it \<and> mh_step rt e n s = Inr s' \<and>
           (\<not> flt (Fin (u it)) (alpha it) \<longrightarrow> w_n s' ! (n + 1) = w_n s ! n) \<and>
           (\<forall>k. k \<noteq> n + 1 \<longrightarrow> w_n s' ! k = w_n s ! k) \<and>
           length (w_n s') = length (w_n s)"
proof -
  obtain it where it: "mh_iteration rt e n s = Inr it"
    using mh_iteration_ok[OF assms(1,2,3)] assms(4) by (meson less_imp_le)
  have "n + 1 < length (w_n s)"
    using assms(3,4) by (simp add: wf_state_def)
  then show ?thesis
    using it by (simp add: mh_step_value[OF assms it])
qed

theorem rejection_repeats_current_row_witness:
  "runtime_ok rt_demo \<and> wf_env e_demo \<and> wf_state e_demo s_demo \<and> 0 < n_it e_demo \<and>
   (\<exists>it s'. mh_iteration rt_demo e_demo 0 s_demo = Inr it \<and>
           mh_step rt_demo e_demo 0 s_demo = Inr s' \<and>
           (\<not> flt (Fin (u it)) (alpha it) \<longrightarrow> w_n s' ! (0 + 1) = w_n s_demo ! 0) \<and>
           (\<forall>k. k \<noteq> 0 + 1 \<longrightarrow> w_n s' ! k = w_n s_demo ! k) \<and>
           length (w_n s') = length (w_n s_demo)) \<and>
   \<not> flt (Fin (u it_demo)) (alpha it_demo) \<and>
   mh_step rt_demo e_demo 0 s_demo =
     Inr \<lparr>w_n = [[0, 1 / 100], [0, 1 / 100]], rng = \<lparr>pos = 3, gauss_next = None\<rparr>\<rparr>"
proof -
  have a: "\<not> flt (Fin (u it_demo)) (alpha it_demo)"
    by (simp add: it_demo_def)
  have b: "mh_step rt_demo e_demo 0 s_demo =
     Inr \<lparr>w_n = [[0, 1 / 100], [0, 1 / 100]], rng = \<lparr>pos = 3, gauss_next = None\<rparr>\<rparr>"
    by (simp add: mh_step_value[OF runtime_ok_demo wf_env_demo(1) wf_state_demo(1) n_it_demo(1) iteration_demo])
       (simp add: it_demo_def s_demo_def)
  show ?thesis
    using rejection_repeats_current_row[OF runtime_ok_demo wf_env_demo(1) wf_state_demo(1) n_it_demo(1)]
      runtime_ok_demo wf_env_demo(1) wf_state_demo(1) n_it_demo(1) a b
    by blast
qed

text \<open>
  C7. In an iteration where the likelihood of the candidate is exactly zero and the
  likelihood of row \<open>n\<close> is positive, \<open>r\<close> is 0, \<open>alpha\<close> is 0, the number \<open>u\<close> drawn in
  \<open>[0, 1)\<close> is not below it, and the step writes row \<open>n\<close> again into row \<open>n + 1\<close>.
\<close>

theorem underflowed_candidate_rejected:
  assumes "runtime_ok rt" and "wf_env e" and "wf_state e s" and "n < n_it e"
    and "mh_iteration rt e n s = Inr it" and "L_star it = 0" and "0 < L_cur it"
  shows "fun_LL rt e (w_star it) = Inr (L_star it) \<and> fun_LL rt e (w_n s ! n) = Inr (L_cur it) \<and>
         r it = Fin 0 \<and> alpha it = Fin 0 \<and>
         (\<forall>v. 0 \<le> v \<and> v < 1 \<longrightarrow> \<not> flt (Fin v) (alpha it)) \<and>
         \<not> flt (Fin (u it)) (alpha it) \<and>
         (\<exists>s'. mh_step rt e n s = Inr s' \<and> w_n s' ! (n + 1) = w_n s ! n)"
proof -
  have ll: "fun_LL rt e (w_star it) = Inr (L_star it)" "fun_LL rt e (w_n s ! n) = Inr (L_cur it)"
    using mh_iterationD[OF assms(5)] mh_iteration_shape[OF assms(1,2,3) _ assms(5)] assms(4)
    by auto
  have r0: "r it = Fin 0"
    using mh_iterationD[OF assms(5)] assms(1,6,7) by (auto simp: fdiv_def runtime_ok_def)
  have "alpha it = min_1 (r it)"
    using mh_iterationD[OF assms(5)] by blast
  then have a: "alpha it = Fin 0"
    by (simp add: r0 min_1_def)
  have rej: "\<not> flt (Fin (u it)) (alpha it)"
    using a mh_iteration_u[OF assms(1,5)] by simp
  have "n + 1 < length (w_n s)"
    using assms(3,4) by (simp add: wf_state_def)
  then show ?thesis
    using r0 a rej ll by (simp add: mh_step_value[OF assms(1-5)])
qed

theorem underflowed_candidate_rejected_witness:
  "runtime_ok rt_demo \<and> wf_env e_demo \<and> wf_state e_demo s_demo \<and> 0 < n_it e_demo \<and>
   mh_iteration rt_demo e_demo 0 s_demo = Inr it_demo \<and> L_star it_demo = 0 \<and> 0 < L_cur it_demo \<and>
   r it_demo = Fin 0 \<and> alpha it_demo = Fin 0 \<and> \<not> flt (Fin (u it_demo)) (alpha it_demo) \<and>
   (\<exists>s'. mh_step rt_demo e_demo 0 s_demo = Inr s' \<and> w_n s' ! (0 + 1) = w_n s_demo ! 0)"
proof -
  have h: "L_star it_demo = 0" "0 < L_cur it_demo" by (simp_all add: it_demo_def)
  show ?thesis
    using underflowed_candidate_rejected[OF runtime_ok_demo wf_env_demo(1) wf_state_demo(1)
        n_it_demo(1) iteration_demo h]
      runtime_ok_demo wf_env_demo(1) wf_state_demo(1) n_it_demo(1) iteration_demo h
    by blast
qed

text \<open>
  C8, as the code has it. A current row of zero likelihood raises no error and does not
  end the run: \<open>r\<close> is a NaN or \<open>+inf\<close>, the step returns the next array, and the
  iterations \<open>n..n_it - 1\<close> run to the end and leave an array of \<open>n_it + 1\<close> rows.
\<close>

theorem zero_likelihood_state_raises_no_error:
  assumes "runtime_ok rt" and "wf_env e" and "wf_state e s" and "n < n_it e"
    and "mh_iteration rt e n s = Inr it" and "L_cur it = 0"
  shows "(r it = NaN \<or> r it = PInf) \<and>
         (\<exists>s' sf. mh_step rt e n s = Inr s' \<and> mh_loop rt e [n..<n_it e] s = Inr sf \<and>
            length (w_n sf) = n_it e + 1)"
proof -
  have ls: "0 \<le> L_star it"
    using mh_iteration_nonneg[OF assms(1,5)] by simp
  have "r it = fdiv (fp_round rt) (L_star it) (L_cur it)"
    using mh_iterationD[OF assms(5)] by blast
  then have rr: "r it = NaN \<or> r it = PInf"
    using ls assms(6) by (cases "L_star it = 0") (simp_all add: fdiv_def)
  obtain s' where s': "mh_step rt e n s = Inr s'"
    using mh_step_ok[OF assms(1-4)] by blast
  obtain sf where sf: "mh_loop rt e [n..<n_it e] s = Inr sf" "wf_state e sf"
    using mh_loop_ok[OF assms(1-3) order_refl, of n] by blast
  have "length (w_n sf) = n_it e + 1"
    using sf(2) by (simp add: wf_state_def)
  with rr s' sf(1) show ?thesis by blast
qed

theorem zero_likelihood_state_raises_no_error_witness:
  "runtime_ok rt_demo \<and> wf_env e_nan \<and> wf_state e_nan s_demo \<and> 0 < n_it e_nan \<and>
   mh_iteration rt_demo e_nan 0 s_demo = Inr it_nan \<and> L_cur it_nan = 0 \<and>
   (r it_nan = NaN \<or> r it_nan = PInf) \<and>
   (\<exists>s' sf. mh_step rt_demo e_nan 0 s_demo = Inr s' \<and>
      mh_loop rt_demo e_nan [0..<n_it e_nan] s_demo = Inr sf \<and>
      length (w_n sf) = n_it e_nan + 1)"
proof -
  have h: "L_cur it_nan = 0" by (simp add: it_nan_def)
  show ?thesis
    using zero_likelihood_state_raises_no_error[OF runtime_ok_demo wf_env_demo(3) wf_state_demo(3)
        n_it_demo(3) iteration_nan h]
      runtime_ok_demo wf_env_demo(3) wf_state_demo(3) n_it_demo(3) iteration_nan h
    by blast
qed

text \<open>
  C8, as stated, fails. With the datum 300 the starting row has likelihood zero and the
  ratio of the one iteration is a NaN; the run returns its array of two rows, the
  candidate in row 1, and no error.
\<close>

theorem degenerate_state_error_counterexample:
  "fun_LL rt_demo e_nan (w_MLE e_nan) = Inr 0 \<and>
   mh_iteration rt_demo e_nan 0 s_demo = Inr it_nan \<and> L_cur it_nan = 0 \<and> r it_nan = NaN \<and>
   mh_run rt_demo e_nan g_demo =
     Inr \<lparr>w_n = [[0, 1 / 100], [0, 3 / 100]], rng = \<lparr>pos = 3, gauss_next = None\<rparr>\<rparr>"
proof -
  have a: "fun_LL rt_demo e_nan (w_MLE e_nan) = Inr 0"
    by (simp add: e_nan_simps fun_LL_demo)
  have b: "mh_step rt_demo e_nan 0 s_demo =
     Inr \<lparr>w_n = [[0, 1 / 100], [0, 3 / 100]], rng = \<lparr>pos = 3, gauss_next = None\<rparr>\<rparr>"
    by (simp add: mh_step_value[OF runtime_ok_demo wf_env_demo(3) wf_state_demo(3) n_it_demo(3) iteration_nan])
       (simp add: it_nan_def s_demo_def)
  have c: "mh_run rt_demo e_nan g_demo =
     Inr \<lparr>w_n = [[0, 1 / 100], [0, 3 / 100]], rng = \<lparr>pos = 3, gauss_next = None\<rparr>\<rparr>"
    by (simp add: mh_run_def mh_init_demo e_nan_simps b)
  show ?thesis
    using a c iteration_nan by (simp add: it_nan_def)
qed

text \<open>
  C9, as the code has it. \<^verbatim>\<open>random.gauss\<close> and \<^verbatim>\<open>random.random\<close> read one generator. From
  a generator that has given \<open>p\<close> numbers, the two Gaussian draws of an iteration are
  made of its numbers \<open>p\<close> and \<open>p + 1\<close> (and of the value kept by an earlier call, if
  any), \<open>u\<close> is its number \<open>p + 2\<close>, and the iteration leaves it at \<open>p + 3\<close>.
\<close>

theorem uniform_draw_follows_gaussian_draws_in_one_generator:
  assumes "runtime_ok rt" and "mh_iteration rt e n s = Inr it"
  shows "mv_norm it =
           (case gauss_next (rng s) of
              None \<Rightarrow> [cos (mt_raw rt (pos (rng s)) * (2 * pi)) * sqrt (- 2 * ln (1 - mt_raw rt (pos (rng s) + 1))),
                        sin (mt_raw rt (pos (rng s)) * (2 * pi)) * sqrt (- 2 * ln (1 - mt_raw rt (pos (rng s) + 1)))]
            | Some c \<Rightarrow> [c, cos (mt_raw rt (pos (rng s)) * (2 * pi)) * sqrt (- 2 * ln (1 - mt_raw rt (pos (rng s) + 1)))]) \<and>
         u it = mt_raw rt (pos (rng s) + 2) \<and>
         pos (rng_after it) = pos (rng s) + 3"
  using mh_iterationD[OF assms(2)] draw_mv_norm_value[OF assms(1), of "rng s"]
  by auto

theorem uniform_draw_follows_gaussian_draws_in_one_generator_witness:
  "runtime_ok rt_demo \<and> mh_iteration rt_demo e_demo 0 s_demo = Inr it_demo \<and>
   mv_norm it_demo =
           (case gauss_next (rng s_demo) of
              None \<Rightarrow> [cos (mt_raw rt_demo (pos (rng s_demo)) * (2 * pi)) * sqrt (- 2 * ln (1 - mt_raw rt_demo (pos (rng s_demo) + 1))),
                        sin (mt_raw rt_demo (pos (rng s_demo)) * (2 * pi)) * sqrt (- 2 * ln (1 - mt_raw rt_demo (pos (rng s_demo) + 1)))]
            | Some c \<Rightarrow> [c, cos (mt_raw rt_demo (pos (rng s_demo)) * (2 * pi)) * sqrt (- 2 * ln (1 - mt_raw rt_demo (pos (rng s_demo) + 1)))]) \<and>
   u it_demo = mt_raw rt_demo (pos (rng s_demo) + 2) \<and>
   pos (rng_after it_demo) = pos (rng s_demo) + 3"
  using uniform_draw_follows_gaussian_draws_in_one_generator[OF runtime_ok_demo iteration_demo]
    runtime_ok_demo iteration_demo
  by blast

text \<open>
  C9, as stated, fails. In the small run the Gaussian draws take the generator from
  position 0 to position 2, and the \<open>u\<close> of the iteration is what \<^verbatim>\<open>random.random()\<close>
  returns from that position of the same generator: \<open>1/2\<close>, where the generator before
  the Gaussian draws would have returned \<open>1/4\<close>.
\<close>

theorem uniform_draw_independent_counterexample:
  "draw_mv_norm rt_demo (rng s_demo) = Inr ([0, 2], \<lparr>pos = 2, gauss_next = None\<rparr>) \<and>
   mh_iteration rt_demo e_demo 0 s_demo = Inr it_demo \<and>
   u it_demo = fst (random_random rt_demo \<lparr>pos = 2, gauss_next = None\<rparr>) \<and>
   u it_demo \<noteq> fst (random_random rt_demo (rng s_demo))"
proof -
  have a: "draw_mv_norm rt_demo (rng s_demo) = Inr ([0, 2], \<lparr>pos = 2, gauss_next = None\<rparr>)"
    by (simp add: s_demo_def draw_demo)
  have b: "fst (random_random rt_demo \<lparr>pos = 2, gauss_next = None\<rparr>) = 1 / 2"
    by (simp add: random_random_def rt_demo_simps)
  have c: "fst (random_random rt_demo (rng s_demo)) = 1 / 4"
    by (simp add: random_random_def s_demo_def g_demo_def rt_demo_def)
  show ?thesis
    by (simp add: a b c iteration_demo it_demo_def)
qed

text \<open>
  C10. In an iteration where the likelihood of row \<open>n\<close> is exactly zero, no error is
  raised: \<open>r\<close> is a NaN when the likelihood of the candidate is zero too and \<open>+inf\<close>
  otherwise, \<^verbatim>\<open>min(1, r)\<close> is 1, the number \<open>u\<close> drawn in \<open>[0, 1)\<close> is below it, and the
  step writes the candidate into row \<open>n + 1\<close>.
\<close>

theorem zero_likelihood_state_always_left:
  assumes "runtime_ok rt" and "wf_env e" and "wf_state e s" and "n < n_it e"
    and "mh_iteration rt e n s = Inr it" and "L_cur it = 0"
  shows "fun_LL rt e (w_star it) = Inr (L_star it) \<and> fun_LL rt e (w_n s ! n) = Inr (L_cur it) \<and>
         r it = (if L_star it = 0 then NaN else PInf) \<and> alpha it = Fin 1 \<and>
         (\<forall>v. 0 \<le> v \<and> v < 1 \<longrightarrow> flt (Fin v) (alpha it)) \<and>
         flt (Fin (u it)) (alpha it) \<and>
         (\<exists>s'. mh_step rt e n s = Inr s' \<and> w_n s' ! (n + 1) = w_star it)"
proof -
  have ll: "fun_LL rt e (w_star it) = Inr (L_star it)" "fun_LL rt e (w_n s ! n) = Inr (L_cur it)"
    using mh_iterationD[OF assms(5)] mh_iteration_shape[OF assms(1,2,3) _ assms(5)] assms(4)
    by auto
  have ls: "0 \<le> L_star it"
    using mh_iteration_nonneg[OF assms(1,5)] by simp
  have rr: "r it = (if L_star it = 0 then NaN else PInf)"
    using mh_iterationD[OF assms(5)] assms(6) ls by (auto simp: fdiv_def)
  have "alpha it = min_1 (r it)"
    using mh_iterationD[OF assms(5)] by blast
  then have a: "alpha it = Fin 1"
    by (simp add: rr min_1_def)
  have acc: "flt (Fin (u it)) (alpha it)"
    using a mh_iteration_u[OF assms(1,5)] by simp
  have "n + 1 < length (w_n s)"
    using assms(3,4) by (simp add: wf_state_def)
  then show ?thesis
    using rr a acc ll by (simp add: mh_step_value[OF assms(1-5)])
qed

theorem zero_likelihood_state_always_left_witness:
  "runtime_ok rt_demo \<and> wf_env e_far \<and> wf_state e_far s_demo \<and> 0 < n_it e_far \<and>
   mh_iteration rt_demo e_far 0 s_demo = Inr it_far \<and> L_cur it_far = 0 \<and>
   r it_far = (if L_star it_far = 0 then NaN else PInf) \<and> alpha it_far = Fin 1 \<and>
   flt (Fin (u it_far)) (alpha it_far) \<and>
   (\<exists>s'. mh_step rt_demo e_far 0 s_demo = Inr s' \<and> w_n s' ! (0 + 1) = w_star it_far)"
proof -
  have h: "L_cur it_far = 0" by (simp add: it_far_def)
  show ?thesis
    using zero_likelihood_state_always_left[OF runtime_ok_demo wf_env_demo(2) wf_state_demo(2)
        n_it_demo(2) iteration_far h]
      runtime_ok_demo wf_env_demo(2) wf_state_demo(2) n_it_demo(2) iteration_far h
    by blast
qed

end
